theory Spec2Isabelle
  imports Main "HOL-Library.Word"
begin

unbundle bit_operations_syntax

section \<open>The gateway of the virtual CAN HIL system (gateway.c) and its mock sensor\<close>

text \<open>
  The development embeds the main gateway loop of \<^verbatim>\<open>gateway.c\<close> (section 3 of its
  \<^verbatim>\<open>main\<close>, lines 109-207) and the packetising lines of \<^verbatim>\<open>mock_sensor.c\<close> (lines 86-91)
  and \<^verbatim>\<open>n_mock_sensor.c\<close> (lines 167-171). The two sockets are the environment of the
  program: the byte source behind \<^verbatim>\<open>sock_tcp\<close> and the datagram sink behind
  \<^verbatim>\<open>sock_udp\<close> are parameters of the model, and every system call the loop makes is
  appended to a trace. The socket set-up and the connect-retry loop before the main loop
  (lines 66-103) are not part of the model.
\<close>

subsection \<open>Data\<close>

text \<open>\<^verbatim>\<open>unsigned char\<close> and \<^verbatim>\<open>uint8_t\<close> are 8-bit words.\<close>

type_synonym byte = "8 word"

text \<open>The status codes, lines 32-34.\<close>

definition STATUS_OK :: byte where
  "STATUS_OK = 0x00"

definition STATUS_WARN_LOW_VOLT :: byte where
  "STATUS_WARN_LOW_VOLT = 0x01"

definition STATUS_CRIT_TEMP :: byte where
  "STATUS_CRIT_TEMP = 0x02"

text \<open>
  The packed struct of lines 38-42. The array \<^verbatim>\<open>data[8]\<close> is a list, of length 8 in
  every well-formed frame.
\<close>

record fake_can_frame_t =
  can_id :: "32 word"
  dlc :: byte
  data :: "byte list"

text \<open>The lines the main loop prints, with the values their format strings take.\<close>

datatype message =
    Sensor_disconnected
  | Sync_byte_error byte
  | Checksum_mismatch
  | Rx_tx "16 word" byte byte

text \<open>
  The system calls of the main loop. \<open>Recv len result\<close> is a call
  \<^verbatim>\<open>recv(sock_tcp, buffer + bytes_read, len, 0)\<close> that returned \<open>result\<close>;
  \<open>Sendto bs result\<close> is the call of lines 181-188 on the bytes \<open>bs\<close> of the frame, with
  the value it returned (which the program drops). \<^verbatim>\<open>fflush\<close> prints nothing and is
  left out.
\<close>

datatype event =
    Recv nat int
  | Printf message
  | Close_tcp
  | Close_udp
  | Sendto "byte list" int

text \<open>
  What one call of \<^verbatim>\<open>recv\<close> can do: deliver bytes, report the orderly shutdown of the
  peer (0), or fail (-1). \<open>result_of\<close> is the value the call returns.
\<close>

datatype recv_outcome = Received "byte list" | Shutdown | Failed

fun result_of :: "recv_outcome \<Rightarrow> int" where
  "result_of (Received bs) = int (length bs)"
| "result_of Shutdown = 0"
| "result_of Failed = - 1"

text \<open>The bytes a call writes at \<^verbatim>\<open>buffer + off\<close>; a call that delivers nothing writes nothing.\<close>

definition store :: "byte list \<Rightarrow> nat \<Rightarrow> byte list \<Rightarrow> byte list" where
  "store buf off bs = take off buf @ bs @ drop (off + length bs) buf"

fun deliver :: "recv_outcome \<Rightarrow> nat \<Rightarrow> byte list \<Rightarrow> byte list" where
  "deliver (Received bs) off buf = store buf off bs"
| "deliver Shutdown off buf = buf"
| "deliver Failed off buf = buf"

text \<open>
  The variables of \<^verbatim>\<open>main\<close> that live across iterations (lines 45-55), the state of the
  two sockets' peers, and the trace of system calls so far.
\<close>

record ('s, 'k) gateway =
  sock_tcp :: 's
  sock_udp :: 'k
  frame :: fake_can_frame_t
  buffer :: "byte list"
  trace :: "event list"

text \<open>
  How a piece of the loop body ends: \<open>Return status\<close> is \<^verbatim>\<open>return status\<close> from
  \<^verbatim>\<open>main\<close>; \<open>Proceed\<close> is control going on (out of the inner loop, or to the next
  iteration of the outer one, by \<^verbatim>\<open>continue\<close> or by reaching the end of the body).
\<close>

datatype 'g flow = Return int 'g | Proceed 'g

subsection \<open>The stream reassembly loop, lines 110-124\<close>

function reassemble ::
  "('s \<Rightarrow> nat \<Rightarrow> recv_outcome \<times> 's) \<Rightarrow> int \<Rightarrow> ('s, 'k) gateway \<Rightarrow> ('s, 'k) gateway flow" where
  "reassemble recv bytes_read g =
     (if bytes_read < 5 then
        (case recv (sock_tcp g) (nat (5 - bytes_read)) of
           (outcome, s') \<Rightarrow>
             (let result = result_of outcome;
                  g1 = g\<lparr>sock_tcp := s',
                         buffer := deliver outcome (nat bytes_read) (buffer g),
                         trace := trace g @ [Recv (nat (5 - bytes_read)) result]\<rparr>
              in if result \<le> 0
                 then Return 1 (g1\<lparr>trace := trace g1 @
                                  [Printf Sensor_disconnected, Close_tcp, Close_udp]\<rparr>)
                 else reassemble recv (bytes_read + result) g1))
      else Proceed g)"
  by pat_completeness auto
termination
  by (relation "measure (\<lambda>(recv, bytes_read, g). nat (5 - bytes_read))") auto

subsection \<open>Packet validation, lines 130-145\<close>

text \<open>
  Line 140: the sum is computed in \<^verbatim>\<open>int\<close> after the integer promotions (it is at most
  935), masked, and converted to \<^verbatim>\<open>unsigned char\<close>.
\<close>

definition calc_cs :: "byte \<Rightarrow> byte \<Rightarrow> byte \<Rightarrow> byte" where
  "calc_cs volt_hi volt_lo temp =
     word_of_int ((0xAA + uint volt_hi + uint volt_lo + uint temp) AND 0xFF)"

text \<open>
  The two rejections end the iteration with a warning (\<^verbatim>\<open>continue\<close>); a packet that
  passes gives the three payload bytes.
\<close>

definition validate :: "byte list \<Rightarrow> message + byte \<times> byte \<times> byte" where
  "validate buf =
     (if buf ! 0 \<noteq> 0xAA then Inl (Sync_byte_error (buf ! 0))
      else
        (let volt_hi = buf ! 1;
             volt_lo = buf ! 2;
             temp = buf ! 3;
             rx_cs = buf ! 4;
             cs = calc_cs volt_hi volt_lo temp
         in if cs \<noteq> rx_cs then Inl Checksum_mismatch
            else Inr (volt_hi, volt_lo, temp)))"

text \<open>Line 147: \<^verbatim>\<open>(volt_hi << 8) | volt_lo\<close> in \<^verbatim>\<open>int\<close>, converted to \<^verbatim>\<open>uint16_t\<close>.\<close>

definition voltage_mv :: "byte \<Rightarrow> byte \<Rightarrow> 16 word" where
  "voltage_mv volt_hi volt_lo = word_of_int (push_bit 8 (uint volt_hi) OR uint volt_lo)"

subsection \<open>Safety logic, lines 154-160\<close>

text \<open>Both comparisons are on the promoted, non-negative \<^verbatim>\<open>int\<close> values.\<close>

definition safety_status :: "byte \<Rightarrow> 16 word \<Rightarrow> byte" where
  "safety_status temp voltage =
     (if uint temp > 60 then STATUS_CRIT_TEMP
      else if uint voltage < 3100 then STATUS_WARN_LOW_VOLT
      else STATUS_OK)"

subsection \<open>The frame, lines 166-175, and its bytes in memory\<close>

definition memset :: "byte list \<Rightarrow> nat \<Rightarrow> byte \<Rightarrow> nat \<Rightarrow> byte list" where
  "memset xs off c n = take off xs @ replicate n c @ drop (off + n) xs"

definition fill_frame ::
  "fake_can_frame_t \<Rightarrow> byte \<Rightarrow> byte \<Rightarrow> byte \<Rightarrow> byte \<Rightarrow> fake_can_frame_t" where
  "fill_frame fr volt_hi volt_lo temp status =
     fr\<lparr>can_id := 0x100,
        dlc := 8,
        data := memset ((data fr)[0 := volt_hi, 1 := volt_lo, 2 := temp, 3 := status]) 4 0 4\<rparr>"

text \<open>
  \<^verbatim>\<open>sendto\<close> is handed the object representation of the packed struct
  (\<^verbatim>\<open>&frame\<close>, \<^verbatim>\<open>sizeof(frame)\<close>): the four bytes of \<^verbatim>\<open>can_id\<close> in the byte order of
  the machine, then \<^verbatim>\<open>dlc\<close>, then \<^verbatim>\<open>data\<close>, with no padding.
\<close>

datatype endianness = Little_endian | Big_endian

definition u32_bytes :: "endianness \<Rightarrow> 32 word \<Rightarrow> byte list" where
  "u32_bytes e w =
     (let le = [ucast w, ucast (drop_bit 8 w), ucast (drop_bit 16 w), ucast (drop_bit 24 w)]
      in case e of Little_endian \<Rightarrow> le | Big_endian \<Rightarrow> rev le)"

definition frame_bytes :: "endianness \<Rightarrow> fake_can_frame_t \<Rightarrow> byte list" where
  "frame_bytes e fr = u32_bytes e (can_id fr) @ [dlc fr] @ data fr"

subsection \<open>One iteration of the main loop, lines 109-207\<close>

definition cycle ::
  "endianness \<Rightarrow> ('s \<Rightarrow> nat \<Rightarrow> recv_outcome \<times> 's) \<Rightarrow> ('k \<Rightarrow> byte list \<Rightarrow> int \<times> 'k) \<Rightarrow>
   ('s, 'k) gateway \<Rightarrow> ('s, 'k) gateway flow" where
  "cycle e recv sendto g =
     (case reassemble recv 0 g of
        Return status g1 \<Rightarrow> Return status g1
      | Proceed g1 \<Rightarrow>
          (case validate (buffer g1) of
             Inl warning \<Rightarrow> Proceed (g1\<lparr>trace := trace g1 @ [Printf warning]\<rparr>)
           | Inr (volt_hi, volt_lo, temp) \<Rightarrow>
               (let voltage = voltage_mv volt_hi volt_lo;
                    status = safety_status temp voltage;
                    fr = fill_frame (frame g1) volt_hi volt_lo temp status
                in case sendto (sock_udp g1) (frame_bytes e fr) of
                     (sent, k') \<Rightarrow>
                       Proceed (g1\<lparr>sock_udp := k',
                                   frame := fr,
                                   trace := trace g1 @
                                     [Sendto (frame_bytes e fr) sent,
                                      Printf (Rx_tx voltage temp status)]\<rparr>))))"

text \<open>
  \<^verbatim>\<open>while (1)\<close>: the loop has no exit of its own, so the model is a partial function;
  \<open>None\<close> is a run that never returns.
\<close>

partial_function (option) bridge ::
  "endianness \<Rightarrow> ('s \<Rightarrow> nat \<Rightarrow> recv_outcome \<times> 's) \<Rightarrow> ('k \<Rightarrow> byte list \<Rightarrow> int \<times> 'k) \<Rightarrow>
   ('s, 'k) gateway \<Rightarrow> (int \<times> ('s, 'k) gateway) option" where
  "bridge e recv sendto g =
     (case cycle e recv sendto g of
        Return status g' \<Rightarrow> Some (status, g')
      | Proceed g' \<Rightarrow> bridge e recv sendto g')"

text \<open>The first \<open>n\<close> iterations of the main loop: \<open>Proceed\<close> when the loop is still
  running after them.\<close>

fun cycles ::
  "nat \<Rightarrow> endianness \<Rightarrow> ('s \<Rightarrow> nat \<Rightarrow> recv_outcome \<times> 's) \<Rightarrow> ('k \<Rightarrow> byte list \<Rightarrow> int \<times> 'k) \<Rightarrow>
   ('s, 'k) gateway \<Rightarrow> ('s, 'k) gateway flow" where
  "cycles 0 e recv sendto g = Proceed g"
| "cycles (Suc n) e recv sendto g =
     (case cycle e recv sendto g of
        Return status g' \<Rightarrow> Return status g'
      | Proceed g' \<Rightarrow> cycles n e recv sendto g')"

subsection \<open>The mock sensor's packet\<close>

text \<open>\<^verbatim>\<open>mock_sensor.c\<close>, lines 87-91.\<close>

definition packetize :: "16 word \<Rightarrow> byte \<Rightarrow> byte list" where
  "packetize voltage temp_c =
     (let b0 = 0xAA :: byte;
          b1 = word_of_int (drop_bit 8 (uint voltage) AND 0xFF) :: byte;
          b2 = word_of_int (uint voltage AND 0xFF) :: byte;
          b3 = temp_c;
          b4 = word_of_int ((0xAA + uint b1 + uint b2 + uint b3) AND 0xFF) :: byte
      in [b0, b1, b2, b3, b4])"

text \<open>
  The checksum over the sync byte as it stands in the buffer: line 171 of
  \<^verbatim>\<open>n_mock_sensor.c\<close>, and the rule of the specification (the unsigned 8-bit sum,
  wrapping at 256, of the sync byte plus the voltage-high, voltage-low and temperature
  bytes).
\<close>

definition sync_byte_cs :: "byte list \<Rightarrow> byte" where
  "sync_byte_cs buf =
     word_of_int ((uint (buf ! 0) + uint (buf ! 1) + uint (buf ! 2) + uint (buf ! 3)) AND 0xFF)"

definition validate_sync_byte_cs :: "byte list \<Rightarrow> message + byte \<times> byte \<times> byte" where
  "validate_sync_byte_cs buf =
     (if buf ! 0 \<noteq> 0xAA then Inl (Sync_byte_error (buf ! 0))
      else if sync_byte_cs buf \<noteq> buf ! 4 then Inl Checksum_mismatch
      else Inr (buf ! 1, buf ! 2, buf ! 3))"

subsection \<open>Environments and observations\<close>

text \<open>
  A byte stream as a source: the segments queued at the socket, in order. A call takes
  at most the requested number of bytes off the first segment and leaves the rest of it
  queued; when nothing is left the peer has shut the connection down. Segments are
  non-empty (an empty one would read as a shutdown); the properties of streams below
  assume so.
\<close>

fun stream_recv :: "byte list list \<Rightarrow> nat \<Rightarrow> recv_outcome \<times> byte list list" where
  "stream_recv [] len = (Shutdown, [])"
| "stream_recv (seg # segs) len =
     (Received (take len seg), if len < length seg then drop len seg # segs else segs)"

text \<open>A source never writes more than it was asked for.\<close>

definition recv_bounded :: "('s \<Rightarrow> nat \<Rightarrow> recv_outcome \<times> 's) \<Rightarrow> bool" where
  "recv_bounded recv = (\<forall>s len. result_of (fst (recv s len)) \<le> int len)"

text \<open>Two sinks: one that sends every datagram whole, one whose every send fails.\<close>

definition sendto_ok :: "unit \<Rightarrow> byte list \<Rightarrow> int \<times> unit" where
  "sendto_ok k bs = (int (length bs), k)"

definition sendto_fails :: "unit \<Rightarrow> byte list \<Rightarrow> int \<times> unit" where
  "sendto_fails k bs = (- 1, k)"

text \<open>What a trace shows: the datagrams handed to the sink, the lines printed, the calls
  of \<^verbatim>\<open>recv\<close> and the bytes they took off the stream.\<close>

fun sent_frames :: "event list \<Rightarrow> byte list list" where
  "sent_frames [] = []"
| "sent_frames (Sendto bs r # evs) = bs # sent_frames evs"
| "sent_frames (ev # evs) = sent_frames evs"

fun printed :: "event list \<Rightarrow> message list" where
  "printed [] = []"
| "printed (Printf msg # evs) = msg # printed evs"
| "printed (ev # evs) = printed evs"

fun recv_results :: "event list \<Rightarrow> int list" where
  "recv_results [] = []"
| "recv_results (Recv len r # evs) = r # recv_results evs"
| "recv_results (ev # evs) = recv_results evs"

definition consumed :: "event list \<Rightarrow> int" where
  "consumed evs = sum_list (map (max 0) (recv_results evs))"

text \<open>A state at the start of the main loop, for running the model: a zeroed buffer and
  frame (the program leaves both uninitialised, and the properties below hold for any
  content of the right length) and an empty trace.\<close>

definition initial :: "'s \<Rightarrow> 'k \<Rightarrow> ('s, 'k) gateway" where
  "initial s k =
     \<lparr>sock_tcp = s, sock_udp = k,
      frame = \<lparr>can_id = 0, dlc = 0, data = [0, 0, 0, 0, 0, 0, 0, 0]\<rparr>,
      buffer = [0, 0, 0, 0, 0],
      trace = []\<rparr>"

text \<open>
  The calls of one run of the inner loop that went on: each is a \<^verbatim>\<open>recv\<close> asking for
  \<open>5 - bytes_read\<close> bytes that returned a positive result, which is added to
  \<open>bytes_read\<close>.
\<close>

fun reads_from :: "int \<Rightarrow> event list \<Rightarrow> bool" where
  "reads_from bytes_read [] = True"
| "reads_from bytes_read (Recv len r # evs) =
     (bytes_read < 5 \<and> len = nat (5 - bytes_read) \<and> 0 < r \<and> reads_from (bytes_read + r) evs)"
| "reads_from bytes_read (ev # evs) = False"

text \<open>The events of the steady state: everything but a failed read, the report of the
  disconnection and the closing of the sockets.\<close>

fun steady :: "event \<Rightarrow> bool" where
  "steady (Recv len r) = (0 < r)"
| "steady (Printf msg) = (msg \<noteq> Sensor_disconnected)"
| "steady (Sendto bs r) = True"
| "steady Close_tcp = False"
| "steady Close_udp = False"

text \<open>What a run of the inner loop leaves behind.\<close>

definition loop_post :: "int \<Rightarrow> ('s, 'k) gateway \<Rightarrow> ('s, 'k) gateway flow \<Rightarrow> bool" where
  "loop_post bytes_read g r =
     (case r of
        Proceed g' \<Rightarrow>
          sock_udp g' = sock_udp g \<and> frame g' = frame g
          \<and> (\<exists>evs. trace g' = trace g @ evs \<and> reads_from bytes_read evs
                \<and> 5 \<le> bytes_read + consumed evs)
      | Return status g' \<Rightarrow>
          status = 1 \<and> sock_udp g' = sock_udp g \<and> frame g' = frame g
          \<and> (\<exists>evs r. trace g' = trace g @ evs @
                  [Recv (nat (5 - (bytes_read + consumed evs))) r,
                   Printf Sensor_disconnected, Close_tcp, Close_udp]
                \<and> reads_from bytes_read evs \<and> r \<le> 0 \<and> bytes_read + consumed evs < 5))"

text \<open>
  A run seen without the values \<^verbatim>\<open>sendto\<close> returned and without the state of the sink:
  an event with the result of a send blanked, two states that differ in nothing else, and
  what is left of the result of a run.
\<close>

fun drop_send_result :: "event \<Rightarrow> event" where
  "drop_send_result (Sendto bs r) = Sendto bs 0"
| "drop_send_result ev = ev"

definition similar :: "('s, 'k) gateway \<Rightarrow> ('s, 'k) gateway \<Rightarrow> bool" where
  "similar g h =
     (sock_tcp h = sock_tcp g \<and> frame h = frame g \<and> buffer h = buffer g
      \<and> map drop_send_result (trace h) = map drop_send_result (trace g))"

fun similar_flow :: "('s, 'k) gateway flow \<Rightarrow> ('s, 'k) gateway flow \<Rightarrow> bool" where
  "similar_flow (Return status g) (Return status' h) = (status = status' \<and> similar g h)"
| "similar_flow (Proceed g) (Proceed h) = similar g h"
| "similar_flow (Return status g) (Proceed h) = False"
| "similar_flow (Proceed g) (Return status' h) = False"

definition outcome_view ::
  "int \<times> ('s, 'k) gateway \<Rightarrow> int \<times> 's \<times> fake_can_frame_t \<times> byte list \<times> event list" where
  "outcome_view r =
     (fst r, sock_tcp (snd r), frame (snd r), buffer (snd r),
      map drop_send_result (trace (snd r)))"

section \<open>Properties\<close>

subsection \<open>Arithmetic of the checksum and the voltage\<close>

lemma and_255_take_bit: "(x :: int) AND 255 = take_bit 8 x"
  by (simp add: take_bit_eq_mask mask_eq_exp_minus_1)

lemma calc_cs_sum: "calc_cs volt_hi volt_lo temp = 0xAA + volt_hi + volt_lo + temp"
  unfolding calc_cs_def and_255_take_bit
  by (simp add: wi_bintr wi_hom_syms)

lemma uint_calc_cs:
  "uint (calc_cs volt_hi volt_lo temp) = (170 + uint volt_hi + uint volt_lo + uint temp) mod 256"
  unfolding calc_cs_def and_255_take_bit
  by (simp add: uint_word_of_int take_bit_eq_mod)

lemma uint_voltage_mv: "uint (voltage_mv volt_hi volt_lo) = 256 * uint volt_hi + uint volt_lo"
proof -
  have "push_bit 8 (uint volt_hi) + uint volt_lo = push_bit 8 (uint volt_hi) OR uint volt_lo"
    by (rule disjunctive_add) (auto simp add: bit_simps dest: bit_imp_le_length)
  then have sum: "push_bit 8 (uint volt_hi) OR uint volt_lo = 256 * uint volt_hi + uint volt_lo"
    by (simp add: push_bit_eq_mult)
  have "uint volt_hi < 256" "uint volt_lo < 256"
    using uint_bounded [of volt_hi] uint_bounded [of volt_lo] by simp_all
  then have "256 * uint volt_hi + uint volt_lo < 2 ^ 16" "0 \<le> 256 * uint volt_hi + uint volt_lo"
    by simp_all
  then have "(256 * uint volt_hi + uint volt_lo) mod 2 ^ LENGTH(16) = 256 * uint volt_hi + uint volt_lo"
    by simp
  then show ?thesis
    unfolding voltage_mv_def sum uint_word_of_int .
qed

lemma packetize_bytes:
  "packetize (voltage_mv volt_hi volt_lo) temp =
     [0xAA, volt_hi, volt_lo, temp, 0xAA + volt_hi + volt_lo + temp]"
proof -
  have hi: "word_of_int (drop_bit 8 (uint (voltage_mv volt_hi volt_lo)) AND 0xFF) = volt_hi"
    unfolding voltage_mv_def and_255_take_bit
    by (rule bit_word_eqI) (auto simp add: bit_simps dest: bit_imp_le_length)
  have lo: "word_of_int (uint (voltage_mv volt_hi volt_lo) AND 0xFF) = volt_lo"
    unfolding voltage_mv_def and_255_take_bit
    by (rule bit_word_eqI) (auto simp add: bit_simps dest: bit_imp_le_length)
  show ?thesis
    unfolding packetize_def Let_def hi lo
    using calc_cs_sum [of volt_hi volt_lo temp] by (simp add: calc_cs_def)
qed

lemma voltage_mv_split:
  "voltage_mv (word_of_int (drop_bit 8 (uint v) AND 0xFF)) (word_of_int (uint v AND 0xFF)) = v"
  unfolding voltage_mv_def and_255_take_bit
  by (rule bit_word_eqI) (auto simp add: bit_simps)

lemma flip_bit_changes: "k < 8 \<Longrightarrow> flip_bit k (b :: byte) \<noteq> b"
  by (auto simp add: bit_eq_iff bit_simps)

lemma validate_packet:
  "validate [0xAA, volt_hi, volt_lo, temp, cs] =
     (if cs = 0xAA + volt_hi + volt_lo + temp then Inr (volt_hi, volt_lo, temp)
      else Inl Checksum_mismatch)"
  by (auto simp add: validate_def calc_cs_sum)

lemma status_codes_distinct:
  "distinct [STATUS_OK, STATUS_WARN_LOW_VOLT, STATUS_CRIT_TEMP]"
  by (simp add: STATUS_OK_def STATUS_WARN_LOW_VOLT_def STATUS_CRIT_TEMP_def)

lemma length_8_cases:
  "length xs = 8 \<Longrightarrow> \<exists>a b c d e f g h. xs = [a, b, c, d, e, f, g, h]"
  by (auto simp add: numeral_eq_Suc length_Suc_conv)

lemma fill_frame_data:
  assumes "length (data fr) = 8"
  shows "data (fill_frame fr volt_hi volt_lo temp status) = [volt_hi, volt_lo, temp, status, 0, 0, 0, 0]"
proof -
  from assms obtain a b c d e f g h where "data fr = [a, b, c, d, e, f, g, h]"
    using length_8_cases by blast
  then show ?thesis
    by (simp add: fill_frame_def memset_def numeral_eq_Suc)
qed

lemma u32_bytes_0x100:
  "u32_bytes Little_endian 0x100 = [0x00, 0x01, 0x00, 0x00]"
  "u32_bytes Big_endian 0x100 = [0x00, 0x00, 0x01, 0x00]"
  by (simp_all add: u32_bytes_def)

lemma length_u32_bytes: "length (u32_bytes e w) = 4"
  by (cases e) (simp_all add: u32_bytes_def)


subsection \<open>Observations of a trace\<close>

lemma sent_frames_append: "sent_frames (xs @ ys) = sent_frames xs @ sent_frames ys"
  by (induction xs rule: sent_frames.induct) simp_all

lemma printed_append: "printed (xs @ ys) = printed xs @ printed ys"
  by (induction xs rule: printed.induct) simp_all

lemma recv_results_append: "recv_results (xs @ ys) = recv_results xs @ recv_results ys"
  by (induction xs rule: recv_results.induct) simp_all

lemma consumed_simps:
  "consumed [] = 0"
  "consumed (Recv len r # evs) = max 0 r + consumed evs"
  "consumed (Printf msg # evs) = consumed evs"
  "consumed (Sendto bs r # evs) = consumed evs"
  "consumed (Close_tcp # evs) = consumed evs"
  "consumed (Close_udp # evs) = consumed evs"
  by (simp_all add: consumed_def)

lemma consumed_append: "consumed (xs @ ys) = consumed xs + consumed ys"
  by (simp add: consumed_def recv_results_append)

lemma reads_from_quiet:
  "reads_from bytes_read evs \<Longrightarrow>
     sent_frames evs = [] \<and> printed evs = [] \<and> list_all steady evs
     \<and> length (recv_results evs) = length evs"
  by (induction bytes_read evs rule: reads_from.induct) simp_all

lemma reads_from_count:
  "reads_from bytes_read evs \<Longrightarrow> int (length evs) \<le> consumed evs"
  by (induction bytes_read evs rule: reads_from.induct) (simp_all add: consumed_simps)

lemma reads_from_append:
  "reads_from bytes_read (xs @ ys) =
     (reads_from bytes_read xs \<and> reads_from (bytes_read + consumed xs) ys)"
  by (induction bytes_read xs rule: reads_from.induct) (auto simp add: consumed_simps add.assoc)

subsection \<open>The inner loop\<close>

lemma reassemble_done: "\<not> bytes_read < 5 \<Longrightarrow> reassemble recv bytes_read g = Proceed g"
  by simp

lemma reassemble_read:
  assumes "bytes_read < 5" and "recv (sock_tcp g) (nat (5 - bytes_read)) = (outcome, s')"
  shows "reassemble recv bytes_read g =
     (if result_of outcome \<le> 0
      then Return 1 (g\<lparr>sock_tcp := s',
                       buffer := deliver outcome (nat bytes_read) (buffer g),
                       trace := trace g @ [Recv (nat (5 - bytes_read)) (result_of outcome),
                                           Printf Sensor_disconnected, Close_tcp, Close_udp]\<rparr>)
      else reassemble recv (bytes_read + result_of outcome)
             (g\<lparr>sock_tcp := s',
                buffer := deliver outcome (nat bytes_read) (buffer g),
                trace := trace g @ [Recv (nat (5 - bytes_read)) (result_of outcome)]\<rparr>))"
  using assms by (subst reassemble.simps) (simp add: Let_def)

declare reassemble.simps [simp del]

lemma reassemble_post: "loop_post bytes_read g (reassemble recv bytes_read g)"
proof (induction recv bytes_read g rule: reassemble.induct)
  case (1 recv bytes_read g)
  show ?case
  proof (cases "bytes_read < 5")
    case False
    then show ?thesis
      by (simp add: reassemble_done loop_post_def consumed_simps)
  next
    case True
    obtain outcome s' where rd: "recv (sock_tcp g) (nat (5 - bytes_read)) = (outcome, s')"
      by (cases "recv (sock_tcp g) (nat (5 - bytes_read))")
    define r where "r = result_of outcome"
    define g1 where "g1 = g\<lparr>sock_tcp := s',
                buffer := deliver outcome (nat bytes_read) (buffer g),
                trace := trace g @ [Recv (nat (5 - bytes_read)) r]\<rparr>"
    show ?thesis
    proof (cases "r \<le> 0")
      case True
      have eq: "reassemble recv bytes_read g =
          Return 1 (g1\<lparr>trace := trace g1 @ [Printf Sensor_disconnected, Close_tcp, Close_udp]\<rparr>)"
        using True \<open>bytes_read < 5\<close> rd unfolding r_def g1_def
        by (simp add: reassemble_read)
      have "trace g1 @ [Printf Sensor_disconnected, Close_tcp, Close_udp] =
          trace g @ [] @ [Recv (nat (5 - (bytes_read + consumed []))) r,
                   Printf Sensor_disconnected, Close_tcp, Close_udp]
        \<and> reads_from bytes_read [] \<and> r \<le> 0 \<and> bytes_read + consumed [] < 5"
        using True \<open>bytes_read < 5\<close> by (simp add: g1_def consumed_simps)
      then show ?thesis
        unfolding eq loop_post_def by (simp add: g1_def del: reads_from.simps)
    next
      case False
      from "1.IH" [OF \<open>bytes_read < 5\<close> rd [symmetric] r_def g1_def False]
      have IH: "loop_post (bytes_read + r) g1 (reassemble recv (bytes_read + r) g1)" .
      have eq: "reassemble recv bytes_read g = reassemble recv (bytes_read + r) g1"
        using False \<open>bytes_read < 5\<close> rd unfolding r_def g1_def
        by (simp add: reassemble_read)
      have g1: "sock_udp g1 = sock_udp g" "frame g1 = frame g"
        "trace g1 = trace g @ [Recv (nat (5 - bytes_read)) r]"
        by (simp_all add: g1_def)
      show ?thesis
      proof (cases "reassemble recv (bytes_read + r) g1")
        case (Proceed g')
        with IH obtain evs where "sock_udp g' = sock_udp g1" "frame g' = frame g1"
          "trace g' = trace g1 @ evs" "reads_from (bytes_read + r) evs"
          "5 \<le> bytes_read + r + consumed evs"
          by (auto simp add: loop_post_def)
        then have "sock_udp g' = sock_udp g \<and> frame g' = frame g
          \<and> trace g' = trace g @ (Recv (nat (5 - bytes_read)) r # evs)
          \<and> reads_from bytes_read (Recv (nat (5 - bytes_read)) r # evs)
          \<and> 5 \<le> bytes_read + consumed (Recv (nat (5 - bytes_read)) r # evs)"
          using False \<open>bytes_read < 5\<close> by (simp add: g1 consumed_simps)
        then show ?thesis
          unfolding eq Proceed loop_post_def by (simp del: reads_from.simps)
      next
        case (Return status g')
        with IH obtain evs r' where "status = 1" "sock_udp g' = sock_udp g1" "frame g' = frame g1"
          "trace g' = trace g1 @ evs @ [Recv (nat (5 - (bytes_read + r + consumed evs))) r',
                   Printf Sensor_disconnected, Close_tcp, Close_udp]"
          "reads_from (bytes_read + r) evs" "r' \<le> 0" "bytes_read + r + consumed evs < 5"
          by (auto simp add: loop_post_def)
        then have "status = 1 \<and> sock_udp g' = sock_udp g \<and> frame g' = frame g
          \<and> trace g' = trace g @ (Recv (nat (5 - bytes_read)) r # evs) @
              [Recv (nat (5 - (bytes_read + consumed (Recv (nat (5 - bytes_read)) r # evs)))) r',
                   Printf Sensor_disconnected, Close_tcp, Close_udp]
          \<and> reads_from bytes_read (Recv (nat (5 - bytes_read)) r # evs)
          \<and> r' \<le> 0
          \<and> bytes_read + consumed (Recv (nat (5 - bytes_read)) r # evs) < 5"
          using False \<open>bytes_read < 5\<close> by (simp add: g1 consumed_simps add.assoc)
        then show ?thesis
          unfolding eq Return loop_post_def by (simp del: reads_from.simps)
      qed
    qed
  qed
qed


lemma recv_boundedD:
  "recv_bounded recv \<Longrightarrow> recv s len = (outcome, s') \<Longrightarrow> result_of outcome \<le> int len"
  unfolding recv_bounded_def by (metis fst_conv)

lemma recv_bounded_stream: "recv_bounded stream_recv"
  unfolding recv_bounded_def
proof (intro allI)
  fix s :: "byte list list" and len
  show "result_of (fst (stream_recv s len)) \<le> int len"
    by (cases s) simp_all
qed

lemma reassemble_fills:
  "recv_bounded recv \<Longrightarrow> bytes_read \<le> 5 \<Longrightarrow> reassemble recv bytes_read g = Proceed g' \<Longrightarrow>
     trace g' = trace g @ evs \<Longrightarrow> bytes_read + consumed evs = 5"
proof (induction recv bytes_read g arbitrary: evs rule: reassemble.induct)
  case (1 recv bytes_read g)
  show ?case
  proof (cases "bytes_read < 5")
    case False
    with "1.prems" show ?thesis
      by (simp add: reassemble_done consumed_simps)
  next
    case True
    obtain outcome s' where rd: "recv (sock_tcp g) (nat (5 - bytes_read)) = (outcome, s')"
      by (cases "recv (sock_tcp g) (nat (5 - bytes_read))")
    define r where "r = result_of outcome"
    define g1 where "g1 = g\<lparr>sock_tcp := s',
                buffer := deliver outcome (nat bytes_read) (buffer g),
                trace := trace g @ [Recv (nat (5 - bytes_read)) r]\<rparr>"
    have pos: "\<not> r \<le> 0" and eq: "reassemble recv (bytes_read + r) g1 = Proceed g'"
      using "1.prems"(3) True rd unfolding r_def g1_def
      by (simp_all add: reassemble_read split: if_splits)
    have "r \<le> int (nat (5 - bytes_read))"
      unfolding r_def using "1.prems"(1) rd by (rule recv_boundedD)
    with True have le: "bytes_read + r \<le> 5"
      by simp
    from reassemble_post [of "bytes_read + r" g1 recv] eq
    obtain evs' where evs': "trace g' = trace g1 @ evs'"
      by (auto simp add: loop_post_def)
    then have evs: "evs = Recv (nat (5 - bytes_read)) r # evs'"
      using "1.prems"(4) by (simp add: g1_def)
    from "1.IH" [OF True rd [symmetric] r_def g1_def pos "1.prems"(1) le eq evs']
    show ?thesis
      using pos by (simp add: evs consumed_simps)
  qed
qed

subsection \<open>One iteration and the whole loop\<close>

lemma fill_frame_eq:
  assumes "length (data fr) = 8"
  shows "fill_frame fr volt_hi volt_lo temp status =
     fr\<lparr>can_id := 0x100, dlc := 8, data := [volt_hi, volt_lo, temp, status, 0, 0, 0, 0]\<rparr>"
  using fill_frame_data [OF assms, of volt_hi volt_lo temp status]
  by (simp add: fill_frame_def)

lemma validate_warning:
  "validate buf = Inl warning \<Longrightarrow> warning = Sync_byte_error (buf ! 0) \<or> warning = Checksum_mismatch"
  by (auto simp add: validate_def Let_def split: if_splits)

lemma cycle_Return:
  "(cycle e recv sendto g = Return status g') = (reassemble recv 0 g = Return status g')"
  by (auto simp add: cycle_def Let_def split: flow.splits sum.splits prod.splits)

lemma cycle_rejected:
  assumes "reassemble recv 0 g = Proceed g1" and "validate (buffer g1) = Inl warning"
  shows "cycle e recv sendto g = Proceed (g1\<lparr>trace := trace g1 @ [Printf warning]\<rparr>)"
  using assms by (simp add: cycle_def)

lemma cycle_forwarded:
  assumes "reassemble recv 0 g = Proceed g1"
    and "validate (buffer g1) = Inr (volt_hi, volt_lo, temp)"
    and "sendto (sock_udp g1)
           (frame_bytes e (fill_frame (frame g1) volt_hi volt_lo temp
              (safety_status temp (voltage_mv volt_hi volt_lo)))) = (sent, k')"
  shows "cycle e recv sendto g =
     Proceed (g1\<lparr>sock_udp := k',
                 frame := fill_frame (frame g1) volt_hi volt_lo temp
                            (safety_status temp (voltage_mv volt_hi volt_lo)),
                 trace := trace g1 @
                   [Sendto (frame_bytes e (fill_frame (frame g1) volt_hi volt_lo temp
                              (safety_status temp (voltage_mv volt_hi volt_lo)))) sent,
                    Printf (Rx_tx (voltage_mv volt_hi volt_lo) temp
                              (safety_status temp (voltage_mv volt_hi volt_lo)))]\<rparr>)"
  using assms by (simp add: cycle_def Let_def)

lemma cycle_Proceed_steady:
  assumes "cycle e recv sendto g = Proceed g'"
  shows "\<exists>evs. trace g' = trace g @ evs \<and> list_all steady evs"
proof -
  from assms obtain g1 where g1: "reassemble recv 0 g = Proceed g1"
    by (cases "reassemble recv 0 g") (simp_all add: cycle_def)
  with reassemble_post [of 0 g recv] obtain reads
    where reads: "trace g1 = trace g @ reads" "list_all steady reads"
    using reads_from_quiet by (auto simp add: loop_post_def)
  show ?thesis
  proof (cases "validate (buffer g1)")
    case (Inl warning)
    then have "warning \<noteq> Sensor_disconnected"
      using validate_warning by fastforce
    moreover have "trace g' = trace g @ reads @ [Printf warning]"
      using assms cycle_rejected [OF g1 Inl] reads by auto
    ultimately show ?thesis
      using reads by (intro exI [of _ "reads @ [Printf warning]"]) simp
  next
    case (Inr payload)
    obtain volt_hi volt_lo temp where payload: "payload = (volt_hi, volt_lo, temp)"
      by (cases payload)
    define fr where "fr = fill_frame (frame g1) volt_hi volt_lo temp
              (safety_status temp (voltage_mv volt_hi volt_lo))"
    obtain sent k' where "sendto (sock_udp g1) (frame_bytes e fr) = (sent, k')"
      by (cases "sendto (sock_udp g1) (frame_bytes e fr)")
    from cycle_forwarded [where sendto = sendto and e = e, OF g1 Inr [unfolded payload] this [unfolded fr_def]] assms
    have "trace g' = trace g @ reads @ [Sendto (frame_bytes e fr) sent,
        Printf (Rx_tx (voltage_mv volt_hi volt_lo) temp
                              (safety_status temp (voltage_mv volt_hi volt_lo)))]"
      using reads by (auto simp add: fr_def)
    then show ?thesis
      using reads
      by (intro exI [of _ "reads @ [Sendto (frame_bytes e fr) sent,
        Printf (Rx_tx (voltage_mv volt_hi volt_lo) temp
                              (safety_status temp (voltage_mv volt_hi volt_lo)))]"]) simp
  qed
qed

lemma cycle_Return_link_lost:
  assumes "cycle e recv sendto g = Return status g'"
  shows "status = 1 \<and> sock_udp g' = sock_udp g \<and> frame g' = frame g
     \<and> (\<exists>reads r. trace g' = trace g @ reads @
                  [Recv (nat (5 - consumed reads)) r,
                   Printf Sensor_disconnected, Close_tcp, Close_udp]
                \<and> reads_from 0 reads \<and> r \<le> 0 \<and> consumed reads < 5)"
  using assms reassemble_post [of 0 g recv]
  by (simp add: cycle_Return loop_post_def)

lemma bridge_Return:
  "cycle e recv sendto g = Return status g' \<Longrightarrow> bridge e recv sendto g = Some (status, g')"
  by (subst bridge.simps) simp

lemma bridge_Proceed:
  "cycle e recv sendto g = Proceed g' \<Longrightarrow> bridge e recv sendto g = bridge e recv sendto g'"
  by (subst bridge.simps) simp

lemma cycles_bridge:
  "cycles n e recv sendto g = Return status g' \<Longrightarrow> bridge e recv sendto g = Some (status, g')"
proof (induction n arbitrary: g)
  case 0
  then show ?case by simp
next
  case (Suc n)
  show ?case
  proof (cases "cycle e recv sendto g")
    case (Return st g1)
    with Suc.prems show ?thesis
      by (simp add: bridge_Return)
  next
    case (Proceed g1)
    with Suc.prems have "cycles n e recv sendto g1 = Return status g'"
      by simp
    then show ?thesis
      using Suc.IH Proceed by (simp add: bridge_Proceed)
  qed
qed

lemma cycles_add:
  "cycles n e recv sendto g = Proceed g1 \<Longrightarrow>
     cycles (n + m) e recv sendto g = cycles m e recv sendto g1"
  by (induction n arbitrary: g) (auto split: flow.splits)

lemma bridge_cycles_pair:
  assumes "bridge e recv sendto g = Some y"
  shows "\<exists>n. cycles n e recv sendto g = Return (fst y) (snd y)"
proof (rule bridge.raw_induct
    [where P = "\<lambda>e recv sendto g y. \<exists>n. cycles n e recv sendto g = Return (fst y) (snd y)",
      OF _ assms])
  fix loop :: "endianness \<Rightarrow> ('a \<Rightarrow> nat \<Rightarrow> recv_outcome \<times> 'a) \<Rightarrow> ('b \<Rightarrow> byte list \<Rightarrow> int \<times> 'b) \<Rightarrow>
      ('a, 'b) gateway \<Rightarrow> (int \<times> ('a, 'b) gateway) option"
    and e recv sendto g y
  assume IH: "\<And>e recv sendto g y. loop e recv sendto g = Some y \<Longrightarrow>
      \<exists>n. cycles n e recv sendto g = Return (fst y) (snd y)"
    and step: "(case cycle e recv sendto g of
        Return status g' \<Rightarrow> Some (status, g')
      | Proceed g' \<Rightarrow> loop e recv sendto g') = Some y"
  show "\<exists>n. cycles n e recv sendto g = Return (fst y) (snd y)"
  proof (cases "cycle e recv sendto g")
    case (Return status g')
    with step have "cycles (Suc 0) e recv sendto g = Return (fst y) (snd y)"
      by auto
    then show ?thesis ..
  next
    case (Proceed g1)
    with step have "loop e recv sendto g1 = Some y"
      by simp
    then obtain n where "cycles n e recv sendto g1 = Return (fst y) (snd y)"
      using IH by blast
    with Proceed have "cycles (Suc n) e recv sendto g = Return (fst y) (snd y)"
      by simp
    then show ?thesis ..
  qed
qed

lemma bridge_cycles:
  "bridge e recv sendto g = Some (status, g') \<Longrightarrow> \<exists>n. cycles n e recv sendto g = Return status g'"
  using bridge_cycles_pair [of e recv sendto g "(status, g')"] by simp

lemma cycles_Return_link_lost:
  assumes "cycles n e recv sendto g = Return status g'"
  shows "status = 1
     \<and> (\<exists>evs len r. trace g' = trace g @ evs @
                  [Recv len r, Printf Sensor_disconnected, Close_tcp, Close_udp]
                \<and> list_all steady evs \<and> r \<le> 0)"
  using assms
proof (induction n arbitrary: g)
  case 0
  then show ?case by simp
next
  case (Suc n)
  show ?case
  proof (cases "cycle e recv sendto g")
    case (Return st g1)
    with Suc.prems have "cycle e recv sendto g = Return status g'"
      by simp
    from cycle_Return_link_lost [OF this] obtain reads r
      where "status = 1"
        and "trace g' = trace g @ reads @
                  [Recv (nat (5 - consumed reads)) r,
                   Printf Sensor_disconnected, Close_tcp, Close_udp]"
        and "reads_from 0 reads" "r \<le> 0"
      by blast
    then show ?thesis
      using reads_from_quiet by blast
  next
    case (Proceed g1)
    with Suc.prems have rest: "cycles n e recv sendto g1 = Return status g'"
      by simp
    from cycle_Proceed_steady [OF Proceed] obtain evs1
      where evs1: "trace g1 = trace g @ evs1" "list_all steady evs1" by blast
    from Suc.IH [OF rest] obtain evs2 len r
      where "status = 1" and "trace g' = trace g1 @ evs2 @
                  [Recv len r, Printf Sensor_disconnected, Close_tcp, Close_udp]"
        and "list_all steady evs2" "r \<le> 0"
      by blast
    with evs1 have "status = 1 \<and> trace g' = trace g @ (evs1 @ evs2) @
                  [Recv len r, Printf Sensor_disconnected, Close_tcp, Close_udp]
        \<and> list_all steady (evs1 @ evs2) \<and> r \<le> 0"
      by simp
    then show ?thesis
      by blast
  qed
qed


subsection \<open>The inner loop on a byte stream\<close>

lemma length_store:
  "off + length bs \<le> length buf \<Longrightarrow> length (store buf off bs) = length buf"
  by (simp add: store_def)

lemma take_store:
  "off \<le> length buf \<Longrightarrow> take (off + length bs) (store buf off bs) = take off buf @ bs"
  by (simp add: store_def)

lemma reassemble_stream:
  assumes "[] \<notin> set segs"
  shows "b \<le> 5 \<Longrightarrow> length (buffer g) = 5 \<Longrightarrow> sock_tcp g = segs \<Longrightarrow>
     5 - b \<le> length (concat segs) \<Longrightarrow>
     \<exists>g'. reassemble stream_recv (int b) g = Proceed g'
        \<and> buffer g' = take b (buffer g) @ take (5 - b) (concat segs)
        \<and> concat (sock_tcp g') = drop (5 - b) (concat segs)
        \<and> [] \<notin> set (sock_tcp g')"
  using assms
proof (induction segs arbitrary: b g)
  case Nil
  then have "b = 5" by simp
  with Nil show ?case
    by (simp add: reassemble_done)
next
  case (Cons seg rest)
  show ?case
  proof (cases "b = 5")
    case True
    with Cons.prems show ?thesis
      by (simp add: reassemble_done)
  next
    case False
    with Cons.prems have b: "b < 5" by simp
    from Cons.prems have seg: "seg \<noteq> []" and rest: "[] \<notin> set rest" by auto
    show ?thesis
    proof (cases "5 - b \<le> length seg")
      case True
      define g1 where "g1 = g\<lparr>sock_tcp := (if 5 - b < length seg then drop (5 - b) seg # rest else rest),
                buffer := store (buffer g) b (take (5 - b) seg),
                trace := trace g @ [Recv (5 - b) (int (5 - b))]\<rparr>"
      have rd: "stream_recv (sock_tcp g) (nat (5 - int b)) =
          (Received (take (5 - b) seg), if 5 - b < length seg then drop (5 - b) seg # rest else rest)"
        using Cons.prems(3) b by (simp add: nat_diff_distrib')
      have "reassemble stream_recv (int b) g = reassemble stream_recv 5 g1"
        using b True reassemble_read [where recv = stream_recv, OF _ rd] unfolding g1_def
        by (simp add: nat_diff_distrib' min_def)
      then have "reassemble stream_recv (int b) g = Proceed g1"
        by (simp add: reassemble_done)
      moreover have "buffer g1 = take b (buffer g) @ take (5 - b) (concat (seg # rest))"
        using b True Cons.prems(2) by (simp add: g1_def store_def)
      moreover have "concat (sock_tcp g1) = drop (5 - b) (concat (seg # rest))"
        using True by (simp add: g1_def)
      moreover have "[] \<notin> set (sock_tcp g1)"
        using rest by (simp add: g1_def)
      ultimately show ?thesis
        by blast
    next
      case False
      then have short: "length seg < 5 - b" by simp
      define g1 where "g1 = g\<lparr>sock_tcp := rest,
                buffer := store (buffer g) b seg,
                trace := trace g @ [Recv (5 - b) (int (length seg))]\<rparr>"
      have rd: "stream_recv (sock_tcp g) (nat (5 - int b)) = (Received seg, rest)"
        using Cons.prems(3) b short by (simp add: nat_diff_distrib')
      have step: "reassemble stream_recv (int b) g = reassemble stream_recv (int (b + length seg)) g1"
        using b seg reassemble_read [where recv = stream_recv, OF _ rd] unfolding g1_def
        by (simp add: nat_diff_distrib')
      have len1: "length (buffer g1) = 5"
        using short Cons.prems(2) by (simp add: g1_def length_store)
      have le: "b + length seg \<le> 5"
        using short by simp
      have src: "sock_tcp g1 = rest"
        by (simp add: g1_def)
      have "5 - (b + length seg) \<le> length (concat rest)"
        using Cons.prems(4) by simp
      from Cons.IH [OF le len1 src this rest]
      obtain g' where g': "reassemble stream_recv (int (b + length seg)) g1 = Proceed g'"
        "buffer g' = take (b + length seg) (buffer g1) @ take (5 - (b + length seg)) (concat rest)"
        "concat (sock_tcp g') = drop (5 - (b + length seg)) (concat rest)"
        "[] \<notin> set (sock_tcp g')"
        by blast
      have "take (b + length seg) (buffer g1) = take b (buffer g) @ seg"
        using b Cons.prems(2) by (simp add: g1_def take_store)
      with g'(2) short have "buffer g' = take b (buffer g) @ take (5 - b) (concat (seg # rest))"
        by simp
      moreover from g'(3) short have "concat (sock_tcp g') = drop (5 - b) (concat (seg # rest))"
        by simp
      ultimately show ?thesis
        using step g'(1,4) by auto
    qed
  qed
qed

lemma reassemble_chunks:
  assumes "[] \<notin> set segs"
  shows "b \<le> 5 \<Longrightarrow> sock_tcp g = segs \<Longrightarrow> length (concat segs) = 5 - b \<Longrightarrow>
     \<exists>g' evs. reassemble stream_recv (int b) g = Proceed g'
        \<and> sock_tcp g' = [] \<and> trace g' = trace g @ evs
        \<and> recv_results evs = map (int \<circ> length) segs"
  using assms
proof (induction segs arbitrary: b g)
  case Nil
  then have "b = 5" by simp
  with Nil show ?case
    by (simp add: reassemble_done)
next
  case (Cons seg rest)
  from Cons.prems have seg: "seg \<noteq> []" and rest: "[] \<notin> set rest" by auto
  from seg obtain x xs where "seg = x # xs"
    by (cases seg) simp_all
  with Cons.prems(3) have b: "b < 5" and fit: "length seg \<le> 5 - b"
    by simp_all
  define g1 where "g1 = g\<lparr>sock_tcp := rest,
                buffer := store (buffer g) b seg,
                trace := trace g @ [Recv (5 - b) (int (length seg))]\<rparr>"
  have rd: "stream_recv (sock_tcp g) (nat (5 - int b)) = (Received seg, rest)"
    using Cons.prems(2) b fit by (simp add: nat_diff_distrib')
  have step: "reassemble stream_recv (int b) g = reassemble stream_recv (int (b + length seg)) g1"
    using b seg reassemble_read [where recv = stream_recv, OF _ rd] unfolding g1_def
    by (simp add: nat_diff_distrib')
  have le: "b + length seg \<le> 5"
    using b fit by simp
  have src: "sock_tcp g1 = rest"
    by (simp add: g1_def)
  have "length (concat rest) = 5 - (b + length seg)"
    using Cons.prems(3) by simp
  from Cons.IH [OF le src this rest]
  obtain g' evs where "reassemble stream_recv (int (b + length seg)) g1 = Proceed g'"
    "sock_tcp g' = []" "trace g' = trace g1 @ evs" "recv_results evs = map (int \<circ> length) rest"
    by blast
  then have "reassemble stream_recv (int b) g = Proceed g' \<and> sock_tcp g' = []
      \<and> trace g' = trace g @ (Recv (5 - b) (int (length seg)) # evs)
      \<and> recv_results (Recv (5 - b) (int (length seg)) # evs) = map (int \<circ> length) (seg # rest)"
    using step by (simp add: g1_def)
  then show ?case
    by blast
qed


lemma length_concat_nonempty: "[] \<notin> set segs \<Longrightarrow> length segs \<le> length (concat segs)"
proof (induction segs)
  case Nil
  then show ?case by simp
next
  case (Cons seg segs)
  then obtain x xs where "seg = x # xs"
    by (cases seg) simp_all
  with Cons show ?case
    by simp
qed

lemma reassemble_window:
  assumes "[] \<notin> set segs" and "sock_tcp g = segs" and "length (buffer g) = 5"
    and "5 \<le> length (concat segs)"
  shows "\<exists>g1 reads. reassemble stream_recv 0 g = Proceed g1
     \<and> buffer g1 = take 5 (concat segs)
     \<and> concat (sock_tcp g1) = drop 5 (concat segs) \<and> [] \<notin> set (sock_tcp g1)
     \<and> frame g1 = frame g \<and> sock_udp g1 = sock_udp g
     \<and> trace g1 = trace g @ reads \<and> reads_from 0 reads \<and> consumed reads = 5"
proof -
  from reassemble_stream [OF assms(1) _ assms(3) assms(2), of 0] assms(4)
  obtain g1 where g1: "reassemble stream_recv 0 g = Proceed g1"
    "buffer g1 = take 5 (concat segs)"
    "concat (sock_tcp g1) = drop 5 (concat segs)" "[] \<notin> set (sock_tcp g1)"
    by auto
  with reassemble_post [of 0 g stream_recv] obtain reads
    where reads: "frame g1 = frame g" "sock_udp g1 = sock_udp g"
      "trace g1 = trace g @ reads" "reads_from 0 reads"
    by (auto simp add: loop_post_def)
  from reassemble_fills [OF recv_bounded_stream _ g1(1) reads(3)] have "consumed reads = 5"
    by simp
  with g1 reads show ?thesis
    by blast
qed

subsection \<open>One iteration on a byte stream\<close>

lemma cycle_window_rejected:
  assumes "[] \<notin> set segs" and "sock_tcp g = segs" and "length (buffer g) = 5"
    and "5 \<le> length (concat segs)"
    and "validate (take 5 (concat segs)) = Inl warning"
  shows "\<exists>g1 evs. cycle e stream_recv sendto g = Proceed g1
     \<and> buffer g1 = take 5 (concat segs)
     \<and> concat (sock_tcp g1) = drop 5 (concat segs) \<and> [] \<notin> set (sock_tcp g1)
     \<and> frame g1 = frame g \<and> sock_udp g1 = sock_udp g
     \<and> trace g1 = trace g @ evs \<and> consumed evs = 5
     \<and> sent_frames evs = [] \<and> printed evs = [warning]"
proof -
  from reassemble_window [OF assms(1-4)] obtain g1 reads
    where g1: "reassemble stream_recv 0 g = Proceed g1"
      "buffer g1 = take 5 (concat segs)"
      "concat (sock_tcp g1) = drop 5 (concat segs)" "[] \<notin> set (sock_tcp g1)"
      "frame g1 = frame g" "sock_udp g1 = sock_udp g"
      "trace g1 = trace g @ reads" "reads_from 0 reads" "consumed reads = 5"
    by blast
  define g2 where "g2 = g1\<lparr>trace := trace g1 @ [Printf warning]\<rparr>"
  have "cycle e stream_recv sendto g = Proceed g2"
    unfolding g2_def using g1(1) assms(5) g1(2) by (intro cycle_rejected) simp_all
  moreover have "buffer g2 = take 5 (concat segs)" "concat (sock_tcp g2) = drop 5 (concat segs)"
    "[] \<notin> set (sock_tcp g2)" "frame g2 = frame g" "sock_udp g2 = sock_udp g"
    "trace g2 = trace g @ (reads @ [Printf warning])"
    using g1 by (simp_all add: g2_def)
  moreover have "consumed (reads @ [Printf warning]) = 5"
    "sent_frames (reads @ [Printf warning]) = []"
    "printed (reads @ [Printf warning]) = [warning]"
    using g1(8,9) reads_from_quiet [OF g1(8)]
    by (simp_all add: consumed_append consumed_simps sent_frames_append printed_append)
  ultimately show ?thesis
    by blast
qed

lemma cycle_window_forwarded:
  fixes volt_hi volt_lo temp :: byte
  defines "status \<equiv> safety_status temp (voltage_mv volt_hi volt_lo)"
  assumes "[] \<notin> set segs" and "sock_tcp g = segs" and "length (buffer g) = 5"
    and "5 \<le> length (concat segs)"
    and "validate (take 5 (concat segs)) = Inr (volt_hi, volt_lo, temp)"
    and "length (data (frame g)) = 8"
  shows "\<exists>g1 evs. cycle e stream_recv sendto g = Proceed g1
     \<and> buffer g1 = take 5 (concat segs)
     \<and> concat (sock_tcp g1) = drop 5 (concat segs) \<and> [] \<notin> set (sock_tcp g1)
     \<and> frame g1 = (frame g)\<lparr>can_id := 0x100, dlc := 8,
           data := [volt_hi, volt_lo, temp, status, 0, 0, 0, 0]\<rparr>
     \<and> trace g1 = trace g @ evs \<and> consumed evs = 5
     \<and> sent_frames evs = [u32_bytes e 0x100 @ [8, volt_hi, volt_lo, temp, status, 0, 0, 0, 0]]
     \<and> printed evs = [Rx_tx (voltage_mv volt_hi volt_lo) temp status]"
proof -
  from reassemble_window [OF assms(2-5)] obtain g1 reads
    where g1: "reassemble stream_recv 0 g = Proceed g1"
      "buffer g1 = take 5 (concat segs)"
      "concat (sock_tcp g1) = drop 5 (concat segs)" "[] \<notin> set (sock_tcp g1)"
      "frame g1 = frame g" "sock_udp g1 = sock_udp g"
      "trace g1 = trace g @ reads" "reads_from 0 reads" "consumed reads = 5"
    by blast
  define fr where "fr = fill_frame (frame g1) volt_hi volt_lo temp status"
  have fr: "fr = (frame g1)\<lparr>can_id := 0x100, dlc := 8,
      data := [volt_hi, volt_lo, temp, status, 0, 0, 0, 0]\<rparr>"
    unfolding fr_def using assms(7) g1(5) by (intro fill_frame_eq) simp
  then have bytes: "frame_bytes e fr =
      u32_bytes e 0x100 @ [8, volt_hi, volt_lo, temp, status, 0, 0, 0, 0]"
    by (simp add: frame_bytes_def)
  obtain sent k' where snd: "sendto (sock_udp g1) (frame_bytes e fr) = (sent, k')"
    by (cases "sendto (sock_udp g1) (frame_bytes e fr)")
  define evs where "evs = [Sendto (frame_bytes e fr) sent,
      Printf (Rx_tx (voltage_mv volt_hi volt_lo) temp status)]"
  define g2 where "g2 = g1\<lparr>sock_udp := k', frame := fr, trace := trace g1 @ evs\<rparr>"
  have "cycle e stream_recv sendto g = Proceed g2"
    using cycle_forwarded [where sendto = sendto and e = e, OF g1(1), of volt_hi volt_lo temp sent k']
      assms(6) g1(2) snd
    by (simp add: g2_def evs_def fr_def status_def)
  moreover have "buffer g2 = take 5 (concat segs)" "concat (sock_tcp g2) = drop 5 (concat segs)"
    "[] \<notin> set (sock_tcp g2)"
    "frame g2 = (frame g)\<lparr>can_id := 0x100, dlc := 8,
           data := [volt_hi, volt_lo, temp, status, 0, 0, 0, 0]\<rparr>"
    "trace g2 = trace g @ (reads @ evs)"
    using g1 fr by (simp_all add: g2_def)
  moreover have "consumed (reads @ evs) = 5"
    "sent_frames (reads @ evs) = [u32_bytes e 0x100 @ [8, volt_hi, volt_lo, temp, status, 0, 0, 0, 0]]"
    "printed (reads @ evs) = [Rx_tx (voltage_mv volt_hi volt_lo) temp status]"
    using g1(9) reads_from_quiet [OF g1(8)] bytes
    by (simp_all add: evs_def consumed_append consumed_simps sent_frames_append printed_append)
  ultimately show ?thesis
    by blast
qed

lemma cycle_stream_end:
  assumes "sock_tcp g = []"
  shows "\<exists>g'. cycle e stream_recv sendto g = Return 1 g'
     \<and> trace g' = trace g @ [Recv 5 0, Printf Sensor_disconnected, Close_tcp, Close_udp]"
proof -
  have "stream_recv (sock_tcp g) (nat (5 - 0)) = (Shutdown, [])"
    using assms by simp
  from reassemble_read [where recv = stream_recv, OF _ this]
  show ?thesis
    by (simp add: cycle_Return)
qed


subsection \<open>Runs that differ in the sink only\<close>

lemma similar_sym: "similar g h \<Longrightarrow> similar h g"
  by (simp add: similar_def)

lemma similar_sink: "similar g (g\<lparr>sock_udp := k\<rparr>)"
  by (simp add: similar_def)

lemma reassemble_similar:
  "similar g h \<Longrightarrow> similar_flow (reassemble recv bytes_read g) (reassemble recv bytes_read h)"
proof (induction recv bytes_read g arbitrary: h rule: reassemble.induct)
  case (1 recv bytes_read g)
  show ?case
  proof (cases "bytes_read < 5")
    case False
    with "1.prems" show ?thesis
      by (simp add: reassemble_done)
  next
    case True
    obtain outcome s' where rd: "recv (sock_tcp g) (nat (5 - bytes_read)) = (outcome, s')"
      by (cases "recv (sock_tcp g) (nat (5 - bytes_read))")
    with "1.prems" have rd': "recv (sock_tcp h) (nat (5 - bytes_read)) = (outcome, s')"
      by (simp add: similar_def)
    define r where "r = result_of outcome"
    define g1 where "g1 = g\<lparr>sock_tcp := s',
                buffer := deliver outcome (nat bytes_read) (buffer g),
                trace := trace g @ [Recv (nat (5 - bytes_read)) r]\<rparr>"
    define h1 where "h1 = h\<lparr>sock_tcp := s',
                buffer := deliver outcome (nat bytes_read) (buffer h),
                trace := trace h @ [Recv (nat (5 - bytes_read)) r]\<rparr>"
    have sim1: "similar g1 h1"
      using "1.prems" by (simp add: similar_def g1_def h1_def)
    show ?thesis
    proof (cases "r \<le> 0")
      case True
      then show ?thesis
        using \<open>bytes_read < 5\<close> "1.prems"
        by (simp add: reassemble_read [where recv = recv, OF _ rd] reassemble_read [where recv = recv, OF _ rd'] r_def similar_def)
    next
      case False
      from "1.IH" [OF \<open>bytes_read < 5\<close> rd [symmetric] r_def g1_def False sim1]
      show ?thesis
        using False \<open>bytes_read < 5\<close>
        by (simp add: reassemble_read [where recv = recv, OF _ rd] reassemble_read [where recv = recv, OF _ rd'] r_def g1_def h1_def)
    qed
  qed
qed

lemma cycle_similar:
  assumes "similar g h"
  shows "similar_flow (cycle e recv sendto g) (cycle e recv sendto' h)"
proof -
  note sim = reassemble_similar [OF assms, of recv 0]
  show ?thesis
  proof (cases "reassemble recv 0 g")
    case (Return status g')
    with sim obtain h' where "reassemble recv 0 h = Return status h'" "similar g' h'"
      by (cases "reassemble recv 0 h") simp_all
    with Return show ?thesis
      by (simp add: cycle_def)
  next
    case (Proceed g1)
    with sim obtain h1 where h1: "reassemble recv 0 h = Proceed h1" "similar g1 h1"
      by (cases "reassemble recv 0 h") simp_all
    then have same: "buffer h1 = buffer g1" "frame h1 = frame g1"
      by (simp_all add: similar_def)
    show ?thesis
      using h1(2)
      by (simp add: cycle_def Proceed h1(1) same similar_def Let_def
          split: sum.splits prod.splits)
  qed
qed

lemma cycles_similar:
  "similar g h \<Longrightarrow> similar_flow (cycles n e recv sendto g) (cycles n e recv sendto' h)"
proof (induction n arbitrary: g h)
  case 0
  then show ?case by simp
next
  case (Suc n)
  note sim = cycle_similar [OF Suc.prems, of e recv sendto sendto']
  show ?case
  proof (cases "cycle e recv sendto g")
    case (Return status g')
    with sim obtain h' where "cycle e recv sendto' h = Return status h'" "similar g' h'"
      by (cases "cycle e recv sendto' h") simp_all
    with Return show ?thesis
      by simp
  next
    case (Proceed g1)
    with sim obtain h1 where "cycle e recv sendto' h = Proceed h1" "similar g1 h1"
      by (cases "cycle e recv sendto' h") simp_all
    with Proceed Suc.IH show ?thesis
      by simp
  qed
qed

lemma bridge_similar:
  assumes "similar g h" and "bridge e recv sendto g = Some (status, g')"
  shows "\<exists>h'. bridge e recv sendto' h = Some (status, h') \<and> similar g' h'"
proof -
  from assms(2) obtain n where n: "cycles n e recv sendto g = Return status g'"
    using bridge_cycles by blast
  with cycles_similar [OF assms(1), of n e recv sendto sendto']
  obtain h' where "cycles n e recv sendto' h = Return status h'" "similar g' h'"
    by (cases "cycles n e recv sendto' h") simp_all
  then show ?thesis
    using cycles_bridge by blast
qed

lemma bridge_view:
  assumes "similar g h"
  shows "map_option outcome_view (bridge e recv sendto g) =
         map_option outcome_view (bridge e recv sendto' h)"
proof (cases "bridge e recv sendto g")
  case None
  have "bridge e recv sendto' h = None"
  proof (rule ccontr)
    assume "bridge e recv sendto' h \<noteq> None"
    then obtain status h' where "bridge e recv sendto' h = Some (status, h')"
      by auto
    from bridge_similar [OF similar_sym [OF assms] this, of sendto] None show False
      by simp
  qed
  with None show ?thesis
    by simp
next
  case (Some r)
  obtain status g' where r: "r = (status, g')"
    by (cases r)
  from bridge_similar [OF assms Some [unfolded r], of sendto']
  obtain h' where "bridge e recv sendto' h = Some (status, h')" "similar g' h'"
    by blast
  with Some r show ?thesis
    by (simp add: outcome_view_def similar_def)
qed


section \<open>Validation, classification and encoding\<close>

text \<open>
  C1. The safety classifier is an ordered first-match rule on the numeric values of the
  reading: a temperature above 60 gives \<open>STATUS_CRIT_TEMP\<close>; otherwise a voltage below
  3100 gives \<open>STATUS_WARN_LOW_VOLT\<close>; otherwise the status is \<open>STATUS_OK\<close>. The three
  codes are distinct, so a reading with both thresholds breached is classified as
  critical temperature and never as low voltage. The voltage of a validated packet is
  256 times its high byte plus its low byte.
\<close>

theorem safety_status_first_match:
  "safety_status temp voltage =
     (if 60 < unat temp then STATUS_CRIT_TEMP
      else if unat voltage < 3100 then STATUS_WARN_LOW_VOLT
      else STATUS_OK)
   \<and> (60 < unat temp \<and> unat voltage < 3100 \<longrightarrow>
        safety_status temp voltage = STATUS_CRIT_TEMP
        \<and> safety_status temp voltage \<noteq> STATUS_WARN_LOW_VOLT)
   \<and> distinct [STATUS_OK, STATUS_WARN_LOW_VOLT, STATUS_CRIT_TEMP]
   \<and> unat (voltage_mv volt_hi volt_lo) = 256 * unat volt_hi + unat volt_lo"
proof -
  have t: "(60 < uint temp) = (60 < unat temp)"
    unfolding uint_nat by linarith
  have v: "(uint voltage < 3100) = (unat voltage < 3100)"
    unfolding uint_nat by linarith
  have "int (unat (voltage_mv volt_hi volt_lo)) = int (256 * unat volt_hi + unat volt_lo)"
    using uint_voltage_mv [of volt_hi volt_lo] unfolding uint_nat by simp
  then have "unat (voltage_mv volt_hi volt_lo) = 256 * unat volt_hi + unat volt_lo"
    by (simp only: of_nat_eq_iff)
  then show ?thesis
    using status_codes_distinct by (auto simp add: safety_status_def t v)
qed

theorem safety_status_first_match_witness:
  "safety_status 65 3000 = STATUS_CRIT_TEMP \<and> safety_status 65 3000 \<noteq> STATUS_WARN_LOW_VOLT
   \<and> safety_status 30 3000 = STATUS_WARN_LOW_VOLT \<and> safety_status 45 3100 = STATUS_OK"
  using safety_status_first_match [of 65 3000] safety_status_first_match [of 30 3000]
    safety_status_first_match [of 45 3100]
  by (simp add: STATUS_OK_def STATUS_WARN_LOW_VOLT_def STATUS_CRIT_TEMP_def)


text \<open>
  C2. Checksum round trip. The packet the mock sensor builds for the voltage bytes
  \<open>volt_hi\<close>, \<open>volt_lo\<close> and a temperature is the sync byte, the three payload bytes and
  their sum with \<open>0xAA\<close> modulo 256; the gateway's validator accepts it and returns the
  payload; and with any single bit \<open>k < 8\<close> of byte 1, 2 or 3 flipped, and byte 4 left as
  it was, the validator rejects it with a checksum mismatch. For every voltage and
  temperature of the sensor, the validated bytes compose to the voltage that was sent.
\<close>

theorem checksum_round_trip:
  assumes "i \<in> {1, 2, 3}" and "k < 8"
  shows "packetize (voltage_mv volt_hi volt_lo) temp =
           [0xAA, volt_hi, volt_lo, temp, 0xAA + volt_hi + volt_lo + temp]
         \<and> uint (0xAA + volt_hi + volt_lo + temp) =
             (0xAA + uint volt_hi + uint volt_lo + uint temp) mod 256
         \<and> validate (packetize (voltage_mv volt_hi volt_lo) temp) = Inr (volt_hi, volt_lo, temp)
         \<and> validate ((packetize (voltage_mv volt_hi volt_lo) temp)
               [i := flip_bit k (packetize (voltage_mv volt_hi volt_lo) temp ! i)])
             = Inl Checksum_mismatch
         \<and> (\<exists>hi lo. validate (packetize voltage temp) = Inr (hi, lo, temp)
               \<and> voltage_mv hi lo = voltage)"
proof -
  have flip: "b \<noteq> flip_bit k b" for b :: byte
    using flip_bit_changes [OF \<open>k < 8\<close>, of b] by simp
  from \<open>i \<in> {1, 2, 3}\<close> consider "i = 1" | "i = 2" | "i = 3" by auto
  then have "validate ([0xAA, volt_hi, volt_lo, temp, 0xAA + volt_hi + volt_lo + temp]
               [i := flip_bit k ([0xAA, volt_hi, volt_lo, temp, 0xAA + volt_hi + volt_lo + temp] ! i)])
             = Inl Checksum_mismatch"
    using flip by cases (simp_all add: validate_packet)
  moreover have "uint (0xAA + volt_hi + volt_lo + temp) =
             (0xAA + uint volt_hi + uint volt_lo + uint temp) mod 256"
    using uint_calc_cs [of volt_hi volt_lo temp] by (simp add: calc_cs_sum)
  moreover have "\<exists>hi lo. validate (packetize voltage temp) = Inr (hi, lo, temp)
               \<and> voltage_mv hi lo = voltage"
  proof -
    define hi :: byte where "hi = word_of_int (drop_bit 8 (uint voltage) AND 0xFF)"
    define lo :: byte where "lo = word_of_int (uint voltage AND 0xFF)"
    have v: "voltage_mv hi lo = voltage"
      unfolding hi_def lo_def by (rule voltage_mv_split)
    from packetize_bytes [of hi lo temp] have "validate (packetize voltage temp) = Inr (hi, lo, temp)"
      unfolding v by (simp add: validate_packet)
    with v show ?thesis
      by blast
  qed
  ultimately show ?thesis
    by (simp add: packetize_bytes validate_packet)
qed

theorem checksum_round_trip_witness:
  "packetize 3300 45 = [0xAA, 0x0C, 0xE4, 45, 0xC7]
   \<and> validate (packetize 3300 45) = Inr (0x0C, 0xE4, 45)
   \<and> validate ((packetize 3300 45)[2 := flip_bit 3 (packetize 3300 45 ! 2)]) = Inl Checksum_mismatch"
proof -
  have v: "voltage_mv 0x0C 0xE4 = 3300"
    by (simp add: voltage_mv_def)
  have "(2 :: nat) \<in> {1, 2, 3}" and "(3 :: nat) < 8"
    by simp_all
  note round_trip = checksum_round_trip [OF this, of "0x0C" "0xE4" 45 3300]
  have cs: "(0xAA + 0x0C + 0xE4 + 45 :: byte) = 0xC7"
    by simp
  from round_trip show ?thesis
    unfolding v cs by blast
qed


text \<open>
  C9. On a buffer whose byte 0 is the sync constant, the checksum computed with the
  literal \<open>0xAA\<close> (the gateway) equals the checksum computed over the buffer's own byte
  0 (the sensor of \<^verbatim>\<open>n_mock_sensor.c\<close> and the rule of the specification); the
  validator built on the second checksum agrees with the gateway's on every buffer, since
  the checksum step is reached only past the sync check.
\<close>

theorem sync_byte_checksum_equivalent:
  "(buf ! 0 = 0xAA \<longrightarrow> calc_cs (buf ! 1) (buf ! 2) (buf ! 3) = sync_byte_cs buf)
   \<and> validate_sync_byte_cs buf = validate buf"
  by (simp add: validate_def validate_sync_byte_cs_def sync_byte_cs_def calc_cs_def)

theorem sync_byte_checksum_equivalent_witness:
  "[0xAA, 0x0C, 0x1C, 0x2D, 0xFF] ! 0 = (0xAA :: byte)
   \<and> calc_cs 0x0C 0x1C 0x2D = sync_byte_cs [0xAA, 0x0C, 0x1C, 0x2D, 0xFF]
   \<and> validate_sync_byte_cs [0xAA, 0x0C, 0x1C, 0x2D, 0xFF] = validate [0xAA, 0x0C, 0x1C, 0x2D, 0xFF]"
  using sync_byte_checksum_equivalent [of "[0xAA, 0x0C, 0x1C, 0x2D, 0xFF]"]
  by simp


text \<open>
  C4. The bytes handed to the datagram sink for a frame filled from the payload bytes and
  a status: 13 bytes, the four bytes of the identifier \<open>0x100\<close> in the byte order of the
  machine, the length 8, voltage high, voltage low, temperature, the status code, and
  four zero bytes, whatever the frame variable held before. The status codes are 0, 1
  and 2, and the classifier yields no other.
\<close>

theorem frame_wire_format:
  assumes "length (data fr) = 8"
  shows "frame_bytes e (fill_frame fr volt_hi volt_lo temp status) =
           u32_bytes e 0x100 @ [8, volt_hi, volt_lo, temp, status, 0, 0, 0, 0]
         \<and> length (frame_bytes e (fill_frame fr volt_hi volt_lo temp status)) = 13
         \<and> u32_bytes Little_endian 0x100 = [0x00, 0x01, 0x00, 0x00]
         \<and> u32_bytes Big_endian 0x100 = [0x00, 0x00, 0x01, 0x00]
         \<and> STATUS_OK = 0x00 \<and> STATUS_WARN_LOW_VOLT = 0x01 \<and> STATUS_CRIT_TEMP = 0x02
         \<and> safety_status temp voltage \<in> {STATUS_OK, STATUS_WARN_LOW_VOLT, STATUS_CRIT_TEMP}"
proof -
  have "can_id (fill_frame fr volt_hi volt_lo temp status) = 0x100"
    and "dlc (fill_frame fr volt_hi volt_lo temp status) = 8"
    by (simp_all add: fill_frame_def)
  then have "frame_bytes e (fill_frame fr volt_hi volt_lo temp status) =
           u32_bytes e 0x100 @ [8, volt_hi, volt_lo, temp, status, 0, 0, 0, 0]"
    by (simp add: frame_bytes_def fill_frame_data [OF assms])
  moreover have "safety_status temp voltage \<in> {STATUS_OK, STATUS_WARN_LOW_VOLT, STATUS_CRIT_TEMP}"
    by (simp add: safety_status_def)
  ultimately show ?thesis
    by (simp add: length_u32_bytes u32_bytes_0x100 STATUS_OK_def STATUS_WARN_LOW_VOLT_def
        STATUS_CRIT_TEMP_def)
qed

theorem frame_wire_format_witness:
  "frame_bytes Little_endian (fill_frame \<lparr>can_id = 0, dlc = 0, data = replicate 8 0xEE\<rparr> 0x0C 0x1C 0x2D STATUS_OK)
     = [0x00, 0x01, 0x00, 0x00, 8, 0x0C, 0x1C, 0x2D, 0x00, 0, 0, 0, 0]
   \<and> frame_bytes Big_endian (fill_frame \<lparr>can_id = 0, dlc = 0, data = replicate 8 0xEE\<rparr> 0x0B 0xB8 0x41 STATUS_CRIT_TEMP)
     = [0x00, 0x00, 0x01, 0x00, 8, 0x0B, 0xB8, 0x41, 0x02, 0, 0, 0, 0]"
proof -
  have len: "length (data \<lparr>can_id = 0, dlc = 0, data = replicate 8 (0xEE :: byte)\<rparr>) = 8"
    by simp
  from frame_wire_format [OF len, of Little_endian "0x0C" "0x1C" "0x2D" STATUS_OK]
    frame_wire_format [OF len, of Big_endian "0x0B" "0xB8" "0x41" STATUS_CRIT_TEMP]
  show ?thesis
    by simp
qed


text \<open>
  C8, with the checksum byte \<open>0x07\<close>: the sum \<open>0xAA + 0x0C + 0x1C + 0x2D\<close> is 255, so
  the checksum of the scenario's payload is \<open>0xFF\<close> and not \<open>0x07\<close>; the validator
  rejects the packet \<open>[0xAA, 0x0C, 0x1C, 0x2D, 0x07]\<close> with a checksum mismatch, and the
  iteration that reads it prints the warning and sends no frame.
\<close>

theorem scenario_3100mV_45C_counterexample:
  "calc_cs 0x0C 0x1C 0x2D = 0xFF
   \<and> calc_cs 0x0C 0x1C 0x2D \<noteq> 0x07
   \<and> validate [0xAA, 0x0C, 0x1C, 0x2D, 0x07] = Inl Checksum_mismatch
   \<and> cycle Little_endian stream_recv sendto_ok (initial [[0xAA, 0x0C, 0x1C, 0x2D, 0x07]] ()) =
       Proceed \<lparr>sock_tcp = [], sock_udp = (),
         frame = \<lparr>can_id = 0, dlc = 0, data = [0, 0, 0, 0, 0, 0, 0, 0]\<rparr>,
         buffer = [0xAA, 0x0C, 0x1C, 0x2D, 0x07],
         trace = [Recv 5 5, Printf Checksum_mismatch]\<rparr>"
  by (simp add: validate_def calc_cs_def cycle_def reassemble.simps initial_def store_def)


text \<open>
  C8, with the checksum byte \<open>0xFF\<close>. The packet \<open>[0xAA, 0x0C, 0x1C, 0x2D, 0xFF]\<close>
  (3100 mV, 45 degrees) carries the recomputed checksum \<open>0xFF\<close> and validates; its voltage
  is 3100, which is not below the threshold, so the status is \<open>STATUS_OK\<close>; and the payload
  of the frame is
  \<open>[0x0C, 0x1C, 0x2D, 0x00, 0, 0, 0, 0]\<close>, in the stages one by one and in the iteration of
  the main loop that reads the packet off the stream.
\<close>

theorem scenario_3100mV_45C:
  assumes "sock_tcp g = [[0xAA, 0x0C, 0x1C, 0x2D, 0xFF]]"
    and "length (buffer g) = 5" and "length (data (frame g)) = 8"
  shows "calc_cs 0x0C 0x1C 0x2D = 0xFF
    \<and> validate [0xAA, 0x0C, 0x1C, 0x2D, 0xFF] = Inr (0x0C, 0x1C, 0x2D)
    \<and> voltage_mv 0x0C 0x1C = 3100
    \<and> safety_status 0x2D (voltage_mv 0x0C 0x1C) = STATUS_OK
    \<and> STATUS_OK = 0x00
    \<and> data (fill_frame (frame g) 0x0C 0x1C 0x2D (safety_status 0x2D (voltage_mv 0x0C 0x1C))) =
        [0x0C, 0x1C, 0x2D, 0x00, 0, 0, 0, 0]
    \<and> (\<exists>g' evs. cycle e stream_recv sendto g = Proceed g'
          \<and> data (frame g') = [0x0C, 0x1C, 0x2D, 0x00, 0, 0, 0, 0]
          \<and> trace g' = trace g @ evs
          \<and> sent_frames evs = [u32_bytes e 0x100 @ [8, 0x0C, 0x1C, 0x2D, 0x00, 0, 0, 0, 0]]
          \<and> printed evs = [Rx_tx 3100 0x2D 0x00])"
proof -
  have v: "voltage_mv 0x0C 0x1C = 3100"
    by (simp add: voltage_mv_def)
  have s: "safety_status 0x2D 3100 = STATUS_OK" "STATUS_OK = 0"
    by (simp_all add: safety_status_def STATUS_OK_def)
  have valid: "validate [0xAA, 0x0C, 0x1C, 0x2D, 0xFF] = Inr (0x0C, 0x1C, 0x2D)"
    by (simp add: validate_packet)
  have src: "[] \<notin> set [[0xAA, 0x0C, 0x1C, 0x2D, 0xFF :: byte]]"
    "5 \<le> length (concat [[0xAA, 0x0C, 0x1C, 0x2D, 0xFF :: byte]])"
    "validate (take 5 (concat [[0xAA, 0x0C, 0x1C, 0x2D, 0xFF]])) = Inr (0x0C, 0x1C, 0x2D)"
    using valid by simp_all
  from cycle_window_forwarded [OF src(1) assms(1,2) src(2,3) assms(3), of e sendto]
  have "\<exists>g' evs. cycle e stream_recv sendto g = Proceed g'
          \<and> data (frame g') = [0x0C, 0x1C, 0x2D, 0x00, 0, 0, 0, 0]
          \<and> trace g' = trace g @ evs
          \<and> sent_frames evs = [u32_bytes e 0x100 @ [8, 0x0C, 0x1C, 0x2D, 0x00, 0, 0, 0, 0]]
          \<and> printed evs = [Rx_tx 3100 0x2D 0x00]"
    unfolding v s by auto
  then show ?thesis
    unfolding v s
    by (simp add: valid calc_cs_def fill_frame_data [OF assms(3)])
qed

theorem scenario_3100mV_45C_witness:
  "validate [0xAA, 0x0C, 0x1C, 0x2D, 0xFF] = Inr (0x0C, 0x1C, 0x2D)
   \<and> safety_status 0x2D (voltage_mv 0x0C 0x1C) = STATUS_OK
   \<and> (\<exists>g'. cycle Little_endian stream_recv sendto_ok
          (initial [[0xAA, 0x0C, 0x1C, 0x2D, 0xFF]] ()) = Proceed g'
        \<and> data (frame g') = [0x0C, 0x1C, 0x2D, 0x00, 0, 0, 0, 0]
        \<and> sent_frames (trace g') = [[0, 1, 0, 0, 8, 0x0C, 0x1C, 0x2D, 0x00, 0, 0, 0, 0]]
        \<and> printed (trace g') = [Rx_tx 3100 0x2D 0x00])"
proof -
  have g: "sock_tcp (initial [[0xAA, 0x0C, 0x1C, 0x2D, 0xFF]] () :: (byte list list, unit) gateway)
      = [[0xAA, 0x0C, 0x1C, 0x2D, 0xFF]]"
    "length (buffer (initial [[0xAA, 0x0C, 0x1C, 0x2D, 0xFF]] () :: (byte list list, unit) gateway)) = 5"
    "length (data (frame (initial [[0xAA, 0x0C, 0x1C, 0x2D, 0xFF]] () :: (byte list list, unit) gateway))) = 8"
    "trace (initial [[0xAA, 0x0C, 0x1C, 0x2D, 0xFF]] () :: (byte list list, unit) gateway) = []"
    by (simp_all add: initial_def)
  from scenario_3100mV_45C [OF g(1,2,3), of Little_endian sendto_ok]
  show ?thesis
    unfolding g(4) u32_bytes_0x100 by auto
qed

section \<open>Reassembly and the main loop\<close>

text \<open>
  C10. The inner loop is a total function (its recursion is well-founded on
  \<open>5 - bytes_read\<close>). For a source that never returns more than it was asked for, a run
  from \<open>bytes_read = 0\<close> makes at most 5 calls of \<^verbatim>\<open>recv\<close>: either every call returned
  a positive result, each asking for \<open>5 - bytes_read\<close> bytes and adding its result to
  \<open>bytes_read\<close>, and the loop ends with \<open>bytes_read = 5\<close>; or such calls, with fewer than 5
  bytes in all, are followed by one call that returned zero or less, after which
  \<^verbatim>\<open>main\<close> returns at once.
\<close>

theorem reassemble_terminates:
  assumes "recv_bounded recv"
  shows "\<exists>g' evs.
           trace g' = trace g @ evs
           \<and> length (recv_results evs) \<le> 5
           \<and> (reassemble recv 0 g = Proceed g' \<and> reads_from 0 evs \<and> consumed evs = 5
              \<or> (\<exists>reads r. reassemble recv 0 g = Return 1 g'
                    \<and> evs = reads @ [Recv (nat (5 - consumed reads)) r,
                                      Printf Sensor_disconnected, Close_tcp, Close_udp]
                    \<and> reads_from 0 reads \<and> consumed reads < 5 \<and> r \<le> 0))"
proof (cases "reassemble recv 0 g")
  case (Proceed g')
  with reassemble_post [of 0 g recv] obtain evs
    where evs: "trace g' = trace g @ evs" "reads_from 0 evs"
    by (auto simp add: loop_post_def)
  from reassemble_fills [OF assms _ Proceed evs(1)] have five: "consumed evs = 5"
    by simp
  from evs(2) have "int (length (recv_results evs)) \<le> consumed evs"
    using reads_from_count reads_from_quiet by metis
  with five have "length (recv_results evs) \<le> 5"
    by simp
  with Proceed evs five show ?thesis
    by blast
next
  case (Return status g')
  with reassemble_post [of 0 g recv] obtain reads r
    where st: "status = 1"
      and tr: "trace g' = trace g @ reads @ [Recv (nat (5 - consumed reads)) r,
                                      Printf Sensor_disconnected, Close_tcp, Close_udp]"
      and reads: "reads_from 0 reads" "consumed reads < 5" "r \<le> 0"
    by (auto simp add: loop_post_def)
  from reads(1) have "int (length (recv_results reads)) \<le> consumed reads"
    using reads_from_count reads_from_quiet by metis
  with reads(2) have "length (recv_results (reads @ [Recv (nat (5 - consumed reads)) r,
                                      Printf Sensor_disconnected, Close_tcp, Close_udp])) \<le> 5"
    by (simp add: recv_results_append)
  with Return st tr reads show ?thesis
    by blast
qed

theorem reassemble_terminates_witness:
  "recv_bounded stream_recv
   \<and> (\<exists>g'. reassemble stream_recv 0 (initial [[0xAA, 0x0C], [0x1C, 0x2D, 0xFF, 0xAA]] ()) = Proceed g'
          \<and> trace g' = [Recv 5 2, Recv 3 3] \<and> buffer g' = [0xAA, 0x0C, 0x1C, 0x2D, 0xFF])
   \<and> (\<exists>g'. reassemble stream_recv 0 (initial [[0xAA, 0x0C], [0x1C]] ()) = Return 1 g'
          \<and> trace g' = [Recv 5 2, Recv 3 1, Recv 2 0, Printf Sensor_disconnected, Close_tcp, Close_udp])"
proof -
  have a: "reassemble stream_recv 0 (initial [[0xAA, 0x0C], [0x1C, 0x2D, 0xFF, 0xAA]] ()) =
      Proceed \<lparr>sock_tcp = [[0xAA]], sock_udp = (),
        frame = \<lparr>can_id = 0, dlc = 0, data = [0, 0, 0, 0, 0, 0, 0, 0]\<rparr>,
        buffer = [0xAA, 0x0C, 0x1C, 0x2D, 0xFF], trace = [Recv 5 2, Recv 3 3]\<rparr>"
    by (simp add: reassemble.simps initial_def store_def)
  have b: "reassemble stream_recv 0 (initial [[0xAA, 0x0C], [0x1C]] ()) =
      Return 1 \<lparr>sock_tcp = [], sock_udp = (),
        frame = \<lparr>can_id = 0, dlc = 0, data = [0, 0, 0, 0, 0, 0, 0, 0]\<rparr>,
        buffer = [0xAA, 0x0C, 0x1C, 0, 0],
        trace = [Recv 5 2, Recv 3 1, Recv 2 0, Printf Sensor_disconnected, Close_tcp, Close_udp]\<rparr>"
    by (simp add: reassemble.simps initial_def store_def)
  from reassemble_terminates [OF recv_bounded_stream,
      of "initial [[0xAA, 0x0C], [0x1C, 0x2D, 0xFF, 0xAA]] ()"]
  show ?thesis
    unfolding a b using recv_bounded_stream by simp
qed

text \<open>
  C3. A call of \<^verbatim>\<open>recv\<close> in the inner loop that returns zero or less makes \<^verbatim>\<open>main\<close>
  report the disconnection, close both sockets and return 1, with no other call in
  between. When that happens in the iteration after any \<open>n\<close> iterations that went on, the
  whole run of the main loop returns 1 there. And every run of the main loop that returns
  has returned 1 in this way: its trace ends with the failed read, the report and the two
  closes, and everything before is steady-state traffic, so no datagram is sent after the
  failed read and nothing else ends the loop.
\<close>

theorem link_lost_terminates:
  "(bytes_read < 5 \<and> recv (sock_tcp g) (nat (5 - bytes_read)) = (outcome, s')
      \<and> result_of outcome \<le> 0 \<longrightarrow>
      (\<exists>g'. reassemble recv bytes_read g = Return 1 g'
         \<and> trace g' = trace g @ [Recv (nat (5 - bytes_read)) (result_of outcome),
                                  Printf Sensor_disconnected, Close_tcp, Close_udp]))
   \<and> (cycles n e recv sendto h = Proceed hn \<and> reassemble recv 0 hn = Return status h' \<longrightarrow>
        status = 1 \<and> bridge e recv sendto h = Some (1, h'))
   \<and> (bridge e recv sendto h = Some (status, h') \<longrightarrow>
        status = 1
        \<and> (\<exists>evs len r. trace h' = trace h @ evs @
                  [Recv len r, Printf Sensor_disconnected, Close_tcp, Close_udp]
              \<and> list_all steady evs \<and> r \<le> 0))"
proof (intro conjI impI)
  assume "bytes_read < 5 \<and> recv (sock_tcp g) (nat (5 - bytes_read)) = (outcome, s')
      \<and> result_of outcome \<le> 0"
  then show "\<exists>g'. reassemble recv bytes_read g = Return 1 g'
         \<and> trace g' = trace g @ [Recv (nat (5 - bytes_read)) (result_of outcome),
                                  Printf Sensor_disconnected, Close_tcp, Close_udp]"
    by (simp add: reassemble_read)
next
  assume a: "cycles n e recv sendto h = Proceed hn \<and> reassemble recv 0 hn = Return status h'"
  then have last: "cycle e recv sendto hn = Return status h'"
    by (simp add: cycle_Return)
  then show "status = 1"
    using cycle_Return_link_lost by blast
  from a have "cycles (n + Suc 0) e recv sendto h = cycles (Suc 0) e recv sendto hn"
    by (intro cycles_add) simp
  also from last have "\<dots> = Return status h'"
    by simp
  finally show "bridge e recv sendto h = Some (1, h')"
    using \<open>status = 1\<close> cycles_bridge by blast
next
  assume "bridge e recv sendto h = Some (status, h')"
  then obtain m where m: "cycles m e recv sendto h = Return status h'"
    using bridge_cycles by blast
  from cycles_Return_link_lost [OF m] show "status = 1"
    by simp
  from cycles_Return_link_lost [OF m]
  show "\<exists>evs len r. trace h' = trace h @ evs @
                  [Recv len r, Printf Sensor_disconnected, Close_tcp, Close_udp]
              \<and> list_all steady evs \<and> r \<le> 0"
    by simp
qed

theorem link_lost_terminates_witness:
  "(\<exists>g'. reassemble stream_recv 2 (initial [] ()) = Return 1 g'
        \<and> trace g' = [Recv 3 0, Printf Sensor_disconnected, Close_tcp, Close_udp])
   \<and> bridge Little_endian stream_recv sendto_ok
        (initial [[0xAA, 0x0C, 0x1C, 0x2D, 0xFF], [0xAA, 0x0C]] ()) =
      Some (1, \<lparr>sock_tcp = [], sock_udp = (),
                 frame = \<lparr>can_id = 0x100, dlc = 8, data = [0x0C, 0x1C, 0x2D, 0, 0, 0, 0, 0]\<rparr>,
                 buffer = [0xAA, 0x0C, 0x1C, 0x2D, 0xFF],
                 trace = [Recv 5 5,
                          Sendto [0, 1, 0, 0, 8, 0x0C, 0x1C, 0x2D, 0, 0, 0, 0, 0] 13,
                          Printf (Rx_tx 3100 0x2D 0),
                          Recv 5 2, Recv 3 0,
                          Printf Sensor_disconnected, Close_tcp, Close_udp]\<rparr>)"
proof -
  define h :: "(byte list list, unit) gateway"
    where "h = initial [[0xAA, 0x0C, 0x1C, 0x2D, 0xFF], [0xAA, 0x0C]] ()"
  define h1 :: "(byte list list, unit) gateway"
    where "h1 = \<lparr>sock_tcp = [[0xAA, 0x0C]], sock_udp = (),
                 frame = \<lparr>can_id = 0x100, dlc = 8, data = [0x0C, 0x1C, 0x2D, 0, 0, 0, 0, 0]\<rparr>,
                 buffer = [0xAA, 0x0C, 0x1C, 0x2D, 0xFF],
                 trace = [Recv 5 5,
                          Sendto [0, 1, 0, 0, 8, 0x0C, 0x1C, 0x2D, 0, 0, 0, 0, 0] 13,
                          Printf (Rx_tx 3100 0x2D 0)]\<rparr>"
  define h' :: "(byte list list, unit) gateway"
    where "h' = \<lparr>sock_tcp = [], sock_udp = (),
                 frame = \<lparr>can_id = 0x100, dlc = 8, data = [0x0C, 0x1C, 0x2D, 0, 0, 0, 0, 0]\<rparr>,
                 buffer = [0xAA, 0x0C, 0x1C, 0x2D, 0xFF],
                 trace = [Recv 5 5,
                          Sendto [0, 1, 0, 0, 8, 0x0C, 0x1C, 0x2D, 0, 0, 0, 0, 0] 13,
                          Printf (Rx_tx 3100 0x2D 0),
                          Recv 5 2, Recv 3 0,
                          Printf Sensor_disconnected, Close_tcp, Close_udp]\<rparr>"
  have first: "cycles (Suc 0) Little_endian stream_recv sendto_ok h = Proceed h1"
    unfolding h_def h1_def
    by (simp add: cycle_def reassemble.simps initial_def store_def validate_def calc_cs_def
        voltage_mv_def safety_status_def fill_frame_eq frame_bytes_def
        u32_bytes_def sendto_ok_def STATUS_OK_def)
  have second: "reassemble stream_recv 0 h1 = Return 1 h'"
    unfolding h1_def h'_def
    by (simp add: reassemble.simps store_def)
  have read: "(2 :: int) < 5 \<and>
      stream_recv (sock_tcp (initial [] () :: (byte list list, unit) gateway)) (nat (5 - 2)) =
        (Shutdown, [])
      \<and> result_of Shutdown \<le> 0"
    by (simp add: initial_def)
  note inst = link_lost_terminates [where bytes_read = 2 and recv = stream_recv
      and g = "initial [] ()" and outcome = Shutdown and s' = "[]" and n = "Suc 0"
      and e = Little_endian and sendto = sendto_ok and h = h and hn = h1 and status = 1
      and h' = h']
  from inst read first second show ?thesis
    unfolding h_def h'_def by (simp add: initial_def)
qed

text \<open>
  C6. The five bytes of a packet, delivered to the inner loop as any sequence of non-empty
  chunks (one, two, up to five of them, split anywhere): each chunk is taken by one call of
  \<^verbatim>\<open>recv\<close>, and the loop ends with the buffer holding exactly the packet, whatever the
  chunking and whatever the buffer held before.
\<close>

theorem chunking_independent:
  assumes "length pkt = 5" and "concat segs = pkt" and "[] \<notin> set segs"
    and "sock_tcp g = segs" and "length (buffer g) = 5"
  shows "\<exists>g' evs. reassemble stream_recv 0 g = Proceed g'
     \<and> buffer g' = pkt \<and> sock_tcp g' = []
     \<and> trace g' = trace g @ evs \<and> recv_results evs = map (int \<circ> length) segs
     \<and> length segs \<le> 5"
proof -
  from reassemble_chunks [OF assms(3) _ assms(4), of 0] assms(1,2)
  obtain g' evs where g': "reassemble stream_recv 0 g = Proceed g'" "sock_tcp g' = []"
    "trace g' = trace g @ evs" "recv_results evs = map (int \<circ> length) segs"
    by auto
  from reassemble_window [OF assms(3,4,5)] assms(1,2) g'(1)
  have "buffer g' = pkt"
    by auto
  moreover from assms(3) have "length segs \<le> length (concat segs)"
    by (rule length_concat_nonempty)
  ultimately show ?thesis
    using g' assms(1,2) by auto
qed

theorem chunking_independent_witness:
  "(\<exists>g'. reassemble stream_recv 0 (initial [[0xAA, 0x0C, 0x1C, 0x2D, 0xFF]] ()) = Proceed g'
       \<and> buffer g' = [0xAA, 0x0C, 0x1C, 0x2D, 0xFF] \<and> recv_results (trace g') = [5])
   \<and> (\<exists>g'. reassemble stream_recv 0 (initial [[0xAA, 0x0C, 0x1C], [0x2D, 0xFF]] ()) = Proceed g'
       \<and> buffer g' = [0xAA, 0x0C, 0x1C, 0x2D, 0xFF] \<and> recv_results (trace g') = [3, 2])
   \<and> (\<exists>g'. reassemble stream_recv 0 (initial [[0xAA], [0x0C], [0x1C], [0x2D], [0xFF]] ()) = Proceed g'
       \<and> buffer g' = [0xAA, 0x0C, 0x1C, 0x2D, 0xFF] \<and> recv_results (trace g') = [1, 1, 1, 1, 1])"
proof -
  have pkt: "length [0xAA, 0x0C, 0x1C, 0x2D, 0xFF :: byte] = 5"
    by simp
  have buf: "length (buffer (initial segs () :: (byte list list, unit) gateway)) = 5"
    and src: "sock_tcp (initial segs () :: (byte list list, unit) gateway) = segs"
    and tr: "trace (initial segs () :: (byte list list, unit) gateway) = []"
    for segs
    by (simp_all add: initial_def)
  have one: "concat [[0xAA, 0x0C, 0x1C, 0x2D, 0xFF]] = [0xAA, 0x0C, 0x1C, 0x2D, 0xFF :: byte]"
    "[] \<notin> set [[0xAA, 0x0C, 0x1C, 0x2D, 0xFF :: byte]]"
    by simp_all
  have two: "concat [[0xAA, 0x0C, 0x1C], [0x2D, 0xFF]] = [0xAA, 0x0C, 0x1C, 0x2D, 0xFF :: byte]"
    "[] \<notin> set [[0xAA, 0x0C, 0x1C], [0x2D, 0xFF :: byte]]"
    by simp_all
  have five: "concat [[0xAA], [0x0C], [0x1C], [0x2D], [0xFF]] = [0xAA, 0x0C, 0x1C, 0x2D, 0xFF :: byte]"
    "[] \<notin> set [[0xAA], [0x0C], [0x1C], [0x2D], [0xFF :: byte]]"
    by simp_all
  from chunking_independent [OF pkt one src buf]
    chunking_independent [OF pkt two src buf]
    chunking_independent [OF pkt five src buf]
  show ?thesis
    unfolding tr by simp blast
qed

text \<open>
  C5. A 10-byte stream, delivered in any non-empty segments: a first 5-byte window that
  the validator rejects (with a bad sync byte or, as in \<open>[0xAA, V1, V2, T1, CSbad]\<close>, a
  checksum mismatch), then a well-formed packet. The first iteration takes exactly the 5
  bytes of the first window off the stream, prints its warning and sends nothing; the
  second takes the next 5 bytes as a fresh window, which validates, and sends its one
  frame. When the stream then ends, the run returns 1 having taken 10 bytes and sent
  exactly one datagram.
\<close>

theorem rejected_window_consumed:
  fixes volt_hi volt_lo temp :: byte
  defines "w2 \<equiv> [0xAA, volt_hi, volt_lo, temp, calc_cs volt_hi volt_lo temp]"
    and "status \<equiv> safety_status temp (voltage_mv volt_hi volt_lo)"
  assumes "length w1 = 5" and "validate w1 = Inl warning"
    and "concat segs = w1 @ w2" and "[] \<notin> set segs"
    and "sock_tcp g = segs" and "length (buffer g) = 5" and "length (data (frame g)) = 8"
  shows "\<exists>g1 g2 g3 evs1 evs2.
      cycle e stream_recv sendto g = Proceed g1
      \<and> trace g1 = trace g @ evs1 \<and> consumed evs1 = 5
      \<and> sent_frames evs1 = [] \<and> printed evs1 = [warning]
      \<and> buffer g1 = w1 \<and> concat (sock_tcp g1) = w2
      \<and> cycle e stream_recv sendto g1 = Proceed g2
      \<and> trace g2 = trace g1 @ evs2 \<and> consumed evs2 = 5
      \<and> sent_frames evs2 = [u32_bytes e 0x100 @ [8, volt_hi, volt_lo, temp, status, 0, 0, 0, 0]]
      \<and> printed evs2 = [Rx_tx (voltage_mv volt_hi volt_lo) temp status]
      \<and> buffer g2 = w2 \<and> sock_tcp g2 = []
      \<and> bridge e stream_recv sendto g = Some (1, g3)
      \<and> trace g3 = trace g @ evs1 @ evs2 @
            [Recv 5 0, Printf Sensor_disconnected, Close_tcp, Close_udp]
      \<and> consumed (evs1 @ evs2 @
            [Recv 5 0, Printf Sensor_disconnected, Close_tcp, Close_udp]) = 10
      \<and> length (sent_frames (evs1 @ evs2 @
            [Recv 5 0, Printf Sensor_disconnected, Close_tcp, Close_udp])) = 1"
proof -
  have w2: "length w2 = 5" "validate w2 = Inr (volt_hi, volt_lo, temp)"
    by (simp_all add: w2_def validate_packet calc_cs_sum)
  have first: "5 \<le> length (concat segs)" "take 5 (concat segs) = w1"
    "drop 5 (concat segs) = w2"
    using assms(3,5) by simp_all
  from cycle_window_rejected [OF assms(6,7,8) first(1), of warning e sendto] assms(4) first
  obtain g1 evs1 where g1: "cycle e stream_recv sendto g = Proceed g1"
    "buffer g1 = w1" "concat (sock_tcp g1) = w2" "[] \<notin> set (sock_tcp g1)"
    "frame g1 = frame g" "trace g1 = trace g @ evs1" "consumed evs1 = 5"
    "sent_frames evs1 = []" "printed evs1 = [warning]"
    by auto
  have second: "5 \<le> length (concat (sock_tcp g1))" "take 5 (concat (sock_tcp g1)) = w2"
    "drop 5 (concat (sock_tcp g1)) = []"
    using g1(3) w2(1) by simp_all
  have "length (buffer g1) = 5" "length (data (frame g1)) = 8"
    using g1(2,5) assms(3,9) by simp_all
  from cycle_window_forwarded [OF g1(4) refl this(1) second(1), of volt_hi volt_lo temp e sendto]
    this(2) w2(2) second
  obtain g2 evs2 where g2: "cycle e stream_recv sendto g1 = Proceed g2"
    "buffer g2 = w2" "concat (sock_tcp g2) = []" "[] \<notin> set (sock_tcp g2)"
    "trace g2 = trace g1 @ evs2" "consumed evs2 = 5"
    "sent_frames evs2 = [u32_bytes e 0x100 @ [8, volt_hi, volt_lo, temp, status, 0, 0, 0, 0]]"
    "printed evs2 = [Rx_tx (voltage_mv volt_hi volt_lo) temp status]"
    unfolding status_def by auto
  from g2(3,4) have empty: "sock_tcp g2 = []"
    by (cases "sock_tcp g2") simp_all
  from cycle_stream_end [OF empty, of e sendto] obtain g3
    where g3: "cycle e stream_recv sendto g2 = Return 1 g3"
      "trace g3 = trace g2 @ [Recv 5 0, Printf Sensor_disconnected, Close_tcp, Close_udp]"
    by blast
  have "bridge e stream_recv sendto g = Some (1, g3)"
    using g1(1) g2(1) g3(1) by (simp add: bridge_Proceed bridge_Return)
  moreover have "trace g3 = trace g @ evs1 @ evs2 @
            [Recv 5 0, Printf Sensor_disconnected, Close_tcp, Close_udp]"
    using g1(6) g2(5) g3(2) by simp
  moreover have "consumed (evs1 @ evs2 @
            [Recv 5 0, Printf Sensor_disconnected, Close_tcp, Close_udp]) = 10"
    using g1(7) g2(6) by (simp add: consumed_append consumed_simps)
  moreover have "length (sent_frames (evs1 @ evs2 @
            [Recv 5 0, Printf Sensor_disconnected, Close_tcp, Close_udp])) = 1"
    using g1(8) g2(7) by (simp add: sent_frames_append)
  ultimately show ?thesis
    using g1 g2 empty by blast
qed


theorem rejected_window_consumed_witness:
  "\<exists>g3. bridge Little_endian stream_recv sendto_ok
        (initial [[0xAA, 0x0C, 0x1C], [0x2D, 0x07, 0xAA, 0x0C], [0x1C, 0x2E, 0x00]] ()) = Some (1, g3)
      \<and> consumed (trace g3) = 10
      \<and> sent_frames (trace g3) = [[0, 1, 0, 0, 8, 0x0C, 0x1C, 0x2E, 0, 0, 0, 0, 0]]
      \<and> printed (trace g3) = [Checksum_mismatch, Rx_tx 3100 0x2E 0, Sensor_disconnected]"
proof -
  define g :: "(byte list list, unit) gateway"
    where "g = initial [[0xAA, 0x0C, 0x1C], [0x2D, 0x07, 0xAA, 0x0C], [0x1C, 0x2E, 0x00]] ()"
  have w1: "length [0xAA, 0x0C, 0x1C, 0x2D, 0x07 :: byte] = 5"
    "validate [0xAA, 0x0C, 0x1C, 0x2D, 0x07] = Inl Checksum_mismatch"
    by (simp_all add: validate_packet)
  have segs: "concat [[0xAA, 0x0C, 0x1C], [0x2D, 0x07, 0xAA, 0x0C], [0x1C, 0x2E, 0x00]] =
      [0xAA, 0x0C, 0x1C, 0x2D, 0x07] @ [0xAA, 0x0C, 0x1C, 0x2E, calc_cs 0x0C 0x1C 0x2E]"
    "[] \<notin> set [[0xAA, 0x0C, 0x1C], [0x2D, 0x07, 0xAA, 0x0C], [0x1C, 0x2E, 0x00 :: byte]]"
    by (simp_all add: calc_cs_sum)
  have g: "sock_tcp g = [[0xAA, 0x0C, 0x1C], [0x2D, 0x07, 0xAA, 0x0C], [0x1C, 0x2E, 0x00]]"
    "length (buffer g) = 5" "length (data (frame g)) = 8" "trace g = []"
    by (simp_all add: g_def initial_def)
  have vals: "voltage_mv 0x0C 0x1C = 3100" "safety_status 0x2E 3100 = 0"
    "u32_bytes Little_endian 0x100 = [0, 1, 0, 0]"
    by (simp_all add: voltage_mv_def safety_status_def STATUS_OK_def u32_bytes_def)
  from rejected_window_consumed [OF w1 segs g(1,2,3), of Little_endian sendto_ok]
  obtain g3 evs1 evs2 where "bridge Little_endian stream_recv sendto_ok g = Some (1, g3)"
    "trace g3 = evs1 @ evs2 @ [Recv 5 0, Printf Sensor_disconnected, Close_tcp, Close_udp]"
    "consumed (evs1 @ evs2 @ [Recv 5 0, Printf Sensor_disconnected, Close_tcp, Close_udp]) = 10"
    "sent_frames evs1 = []" "printed evs1 = [Checksum_mismatch]"
    "sent_frames evs2 = [[0, 1, 0, 0, 8, 0x0C, 0x1C, 0x2E, 0, 0, 0, 0, 0]]"
    "printed evs2 = [Rx_tx 3100 0x2E 0]"
    unfolding g(4) vals by auto
  then have "bridge Little_endian stream_recv sendto_ok g = Some (1, g3)
      \<and> consumed (trace g3) = 10
      \<and> sent_frames (trace g3) = [[0, 1, 0, 0, 8, 0x0C, 0x1C, 0x2E, 0, 0, 0, 0, 0]]
      \<and> printed (trace g3) = [Checksum_mismatch, Rx_tx 3100 0x2E 0, Sensor_disconnected]"
    by (simp add: sent_frames_append printed_append)
  then show ?thesis
    unfolding g_def ..
qed

text \<open>
  C7, the logging of a failed send: a failed send is not logged. The program drops the
  value \<^verbatim>\<open>sendto\<close> returns, so with a sink whose every send fails (the call returns -1)
  the iteration prints exactly what it prints with a sink that works: the status line
  and nothing else.
\<close>

theorem send_failure_logged_counterexample:
  "cycle Little_endian stream_recv sendto_fails (initial [[0xAA, 0x0C, 0x1C, 0x2D, 0xFF]] ()) =
     Proceed \<lparr>sock_tcp = [], sock_udp = (),
       frame = \<lparr>can_id = 0x100, dlc = 8, data = [0x0C, 0x1C, 0x2D, 0, 0, 0, 0, 0]\<rparr>,
       buffer = [0xAA, 0x0C, 0x1C, 0x2D, 0xFF],
       trace = [Recv 5 5,
                Sendto [0, 1, 0, 0, 8, 0x0C, 0x1C, 0x2D, 0, 0, 0, 0, 0] (- 1),
                Printf (Rx_tx 3100 0x2D 0)]\<rparr>
   \<and> printed [Recv 5 5,
                Sendto [0, 1, 0, 0, 8, 0x0C, 0x1C, 0x2D, 0, 0, 0, 0, 0] (- 1),
                Printf (Rx_tx 3100 0x2D 0)] = [Rx_tx 3100 0x2D 0]
   \<and> cycle Little_endian stream_recv sendto_ok (initial [[0xAA, 0x0C, 0x1C, 0x2D, 0xFF]] ()) =
     Proceed \<lparr>sock_tcp = [], sock_udp = (),
       frame = \<lparr>can_id = 0x100, dlc = 8, data = [0x0C, 0x1C, 0x2D, 0, 0, 0, 0, 0]\<rparr>,
       buffer = [0xAA, 0x0C, 0x1C, 0x2D, 0xFF],
       trace = [Recv 5 5,
                Sendto [0, 1, 0, 0, 8, 0x0C, 0x1C, 0x2D, 0, 0, 0, 0, 0] 13,
                Printf (Rx_tx 3100 0x2D 0)]\<rparr>"
  by (simp add: cycle_def reassemble.simps initial_def store_def validate_def calc_cs_def
      voltage_mv_def safety_status_def fill_frame_eq frame_bytes_def u32_bytes_def
      sendto_ok_def sendto_fails_def STATUS_OK_def)

text \<open>
  C7, what a failed send does. A failed send is not fatal and is not reported: whatever
  value the send returns, the iteration goes on to the next one, having added to the trace
  the send and the usual status line only; and the run of the main loop is the same for any two sinks (its
  termination, its exit status, the bytes it reads, the frames it hands to the sink and the
  lines it prints), so a failed send neither ends the loop nor changes what is done with
  the packets that follow.
\<close>

theorem send_failure_ignored:
  "(reassemble recv 0 g = Proceed g1
      \<and> validate (buffer g1) = Inr (volt_hi, volt_lo, temp)
      \<and> sendto (sock_udp g1)
            (frame_bytes e (fill_frame (frame g1) volt_hi volt_lo temp
               (safety_status temp (voltage_mv volt_hi volt_lo)))) = (sent, k') \<longrightarrow>
      (\<exists>g'. cycle e recv sendto g = Proceed g'
         \<and> trace g' = trace g1 @
               [Sendto (frame_bytes e (fill_frame (frame g1) volt_hi volt_lo temp
                          (safety_status temp (voltage_mv volt_hi volt_lo)))) sent,
                Printf (Rx_tx (voltage_mv volt_hi volt_lo) temp
                          (safety_status temp (voltage_mv volt_hi volt_lo)))]))
   \<and> map_option outcome_view (bridge e recv sendto g) =
       map_option outcome_view (bridge e recv sendto' (g\<lparr>sock_udp := k\<rparr>))"
proof (intro conjI impI)
  assume "reassemble recv 0 g = Proceed g1
      \<and> validate (buffer g1) = Inr (volt_hi, volt_lo, temp)
      \<and> sendto (sock_udp g1)
            (frame_bytes e (fill_frame (frame g1) volt_hi volt_lo temp
               (safety_status temp (voltage_mv volt_hi volt_lo)))) = (sent, k')"
  then show "\<exists>g'. cycle e recv sendto g = Proceed g'
         \<and> trace g' = trace g1 @
               [Sendto (frame_bytes e (fill_frame (frame g1) volt_hi volt_lo temp
                          (safety_status temp (voltage_mv volt_hi volt_lo)))) sent,
                Printf (Rx_tx (voltage_mv volt_hi volt_lo) temp
                          (safety_status temp (voltage_mv volt_hi volt_lo)))]"
    by (simp add: cycle_def Let_def)
next
  show "map_option outcome_view (bridge e recv sendto g) =
       map_option outcome_view (bridge e recv sendto' (g\<lparr>sock_udp := k\<rparr>))"
    using similar_sink by (rule bridge_view)
qed

theorem send_failure_ignored_witness:
  "(\<exists>g'. cycle Little_endian stream_recv sendto_fails
           (initial [[0xAA, 0x0C, 0x1C, 0x2D, 0xFF]] ()) = Proceed g'
       \<and> trace g' = [Recv 5 5,
                Sendto [0, 1, 0, 0, 8, 0x0C, 0x1C, 0x2D, 0, 0, 0, 0, 0] (- 1),
                Printf (Rx_tx 3100 0x2D 0)])
   \<and> map_option outcome_view (bridge Little_endian stream_recv sendto_ok
         (initial [[0xAA, 0x0C, 0x1C, 0x2D, 0xFF], [0xAA, 0x0C, 0x1C, 0x2E, 0x00]] ())) =
       Some (1, [],
         \<lparr>can_id = 0x100, dlc = 8, data = [0x0C, 0x1C, 0x2E, 0, 0, 0, 0, 0]\<rparr>,
         [0xAA, 0x0C, 0x1C, 0x2E, 0x00],
         [Recv 5 5, Sendto [0, 1, 0, 0, 8, 0x0C, 0x1C, 0x2D, 0, 0, 0, 0, 0] 0,
          Printf (Rx_tx 3100 0x2D 0),
          Recv 5 5, Sendto [0, 1, 0, 0, 8, 0x0C, 0x1C, 0x2E, 0, 0, 0, 0, 0] 0,
          Printf (Rx_tx 3100 0x2E 0),
          Recv 5 0, Printf Sensor_disconnected, Close_tcp, Close_udp])"
proof -
  define g1 :: "(byte list list, unit) gateway"
    where "g1 = \<lparr>sock_tcp = [], sock_udp = (),
       frame = \<lparr>can_id = 0, dlc = 0, data = [0, 0, 0, 0, 0, 0, 0, 0]\<rparr>,
       buffer = [0xAA, 0x0C, 0x1C, 0x2D, 0xFF], trace = [Recv 5 5]\<rparr>"
  have loop: "reassemble stream_recv 0 (initial [[0xAA, 0x0C, 0x1C, 0x2D, 0xFF]] ()) = Proceed g1"
    by (simp add: g1_def reassemble.simps initial_def store_def)
  have valid: "validate (buffer g1) = Inr (0x0C, 0x1C, 0x2D)"
    by (simp add: g1_def validate_packet)
  have fails: "sendto_fails (sock_udp g1) (frame_bytes Little_endian (fill_frame (frame g1) 0x0C 0x1C 0x2D
       (safety_status 0x2D (voltage_mv 0x0C 0x1C)))) = (- 1, ())"
    by (simp add: sendto_fails_def)
  have run: "cycles (Suc (Suc (Suc 0))) Little_endian stream_recv sendto_fails
      (initial [[0xAA, 0x0C, 0x1C, 0x2D, 0xFF], [0xAA, 0x0C, 0x1C, 0x2E, 0x00]] ()) =
      Return 1 \<lparr>sock_tcp = [], sock_udp = (),
         frame = \<lparr>can_id = 0x100, dlc = 8, data = [0x0C, 0x1C, 0x2E, 0, 0, 0, 0, 0]\<rparr>,
         buffer = [0xAA, 0x0C, 0x1C, 0x2E, 0x00],
         trace = [Recv 5 5, Sendto [0, 1, 0, 0, 8, 0x0C, 0x1C, 0x2D, 0, 0, 0, 0, 0] (- 1),
          Printf (Rx_tx 3100 0x2D 0),
          Recv 5 5, Sendto [0, 1, 0, 0, 8, 0x0C, 0x1C, 0x2E, 0, 0, 0, 0, 0] (- 1),
          Printf (Rx_tx 3100 0x2E 0),
          Recv 5 0, Printf Sensor_disconnected, Close_tcp, Close_udp]\<rparr>"
    by (simp add: cycle_def reassemble.simps initial_def store_def validate_def calc_cs_def
        voltage_mv_def safety_status_def fill_frame_eq frame_bytes_def u32_bytes_def
        sendto_fails_def STATUS_OK_def)
  note failing = cycles_bridge [OF run]
  note inst = send_failure_ignored [where recv = stream_recv and e = Little_endian
      and sendto = sendto_fails and sendto' = sendto_ok and k = "()"]
  from inst [where g = "initial [[0xAA, 0x0C, 0x1C, 0x2D, 0xFF]] ()" and ?g1.0 = g1
      and volt_hi = "0x0C" and volt_lo = "0x1C" and temp = "0x2D" and sent = "- 1" and k' = "()"]
    loop valid fails
  have a: "\<exists>g'. cycle Little_endian stream_recv sendto_fails
           (initial [[0xAA, 0x0C, 0x1C, 0x2D, 0xFF]] ()) = Proceed g'
       \<and> trace g' = [Recv 5 5,
                Sendto [0, 1, 0, 0, 8, 0x0C, 0x1C, 0x2D, 0, 0, 0, 0, 0] (- 1),
                Printf (Rx_tx 3100 0x2D 0)]"
    by (simp add: g1_def voltage_mv_def safety_status_def fill_frame_eq frame_bytes_def
        u32_bytes_0x100 STATUS_OK_def)
  have upd: "(initial segs () :: (byte list list, unit) gateway)\<lparr>sock_udp := ()\<rparr> = initial segs ()"
    for segs
    by (simp add: initial_def)
  note view = inst [where g = "initial [[0xAA, 0x0C, 0x1C, 0x2D, 0xFF], [0xAA, 0x0C, 0x1C, 0x2E, 0x00]] ()",
      THEN conjunct2, unfolded upd failing, symmetric]
  from a view show ?thesis
    by (simp add: outcome_view_def)
qed

end
